theory Spec2Isabelle
  imports Main "HOL-Library.Word"
begin

section \<open>JavaScript values and the built-ins the harness relies on\<close>

text \<open>
  The harness \<^verbatim>\<open>youtube/tester.youtube.js\<close> passes connector data around as plain
  JavaScript values. The model covers the JSON-like values together with \<^verbatim>\<open>undefined\<close>,
  \<^verbatim>\<open>NaN\<close> and BigInt. A Number other than \<^verbatim>\<open>NaN\<close> is an integer \<open>n\<close> with
  \<open>- 2 ^ 53 \<le> n < 2 ^ 53\<close>, held as a word of 54 bits and read as a signed value:
  these are Numbers that JavaScript holds exactly and prints in plain decimal, digit
  by digit. Functions, symbols, getters and cyclic object graphs are outside the
  model. An object is the list of its own enumerable properties in the order in which
  JavaScript enumerates them, with distinct keys; its prototype is
  \<^verbatim>\<open>Object.prototype\<close>. No value is callable, so an own property named
  \<^verbatim>\<open>toString\<close>, \<^verbatim>\<open>valueOf\<close>, \<^verbatim>\<open>toJSON\<close> or \<^verbatim>\<open>then\<close> is never a method.

  A string is the list of its code units; every code unit is one \<^typ>\<open>char\<close>. The
  few non-ASCII code units of the source are named constants below.
\<close>

datatype jsval =
    JUndefined
  | JNull
  | JBool bool
  | JNum "54 word"
  | JNaN
  | JStr string
  | JBigInt int
  | JArr "jsval list"
  | JObj "(string \<times> jsval) list"

text \<open>\<^verbatim>\<open>typeof v === 'object'\<close>: true of \<^verbatim>\<open>null\<close>, arrays and objects.\<close>

fun typeof_object :: "jsval \<Rightarrow> bool" where
  "typeof_object JNull = True"
| "typeof_object (JArr _) = True"
| "typeof_object (JObj _) = True"
| "typeof_object _ = False"

text \<open>ToBoolean: what \<^verbatim>\<open>if (v)\<close>, \<^verbatim>\<open>!v\<close>, \<^verbatim>\<open>&&\<close> and \<^verbatim>\<open>||\<close> test.\<close>

fun truthy :: "jsval \<Rightarrow> bool" where
  "truthy JUndefined = False"
| "truthy JNull = False"
| "truthy (JBool b) = b"
| "truthy (JNum n) = (n \<noteq> 0)"
| "truthy JNaN = False"
| "truthy (JStr s) = (s \<noteq> [])"
| "truthy (JBigInt n) = (n \<noteq> 0)"
| "truthy (JArr _) = True"
| "truthy (JObj _) = True"

text \<open>\<^verbatim>\<open>v == null\<close>, the test behind \<^verbatim>\<open>??\<close> and \<^verbatim>\<open>!= null\<close>.\<close>

fun nullish :: "jsval \<Rightarrow> bool" where
  "nullish JUndefined = True"
| "nullish JNull = True"
| "nullish _ = False"

text \<open>
  Property read \<^verbatim>\<open>v.k\<close> for the names the harness reads (\<^verbatim>\<open>data\<close>,
  \<^verbatim>\<open>exportSummary\<close>, \<^verbatim>\<open>message\<close>, the summary counters): a TypeError on
  \<^verbatim>\<open>null\<close> and \<^verbatim>\<open>undefined\<close>, the own property of an object, and
  \<^verbatim>\<open>undefined\<close> where there is none (primitives and arrays have no property of these
  names).
\<close>

definition type_error :: "string \<Rightarrow> jsval" where
  "type_error msg = JObj [(''name'', JStr ''TypeError''), (''message'', JStr msg)]"

fun get_prop :: "jsval \<Rightarrow> string \<Rightarrow> jsval + jsval" where
  "get_prop JUndefined k = Inl (type_error ''Cannot read properties of undefined'')"
| "get_prop JNull k = Inl (type_error ''Cannot read properties of null'')"
| "get_prop (JObj fs) k = Inr (case map_of fs k of Some v \<Rightarrow> v | None \<Rightarrow> JUndefined)"
| "get_prop _ k = Inr JUndefined"

subsection \<open>Number and string conversion\<close>

fun show_nat :: "nat \<Rightarrow> string" where
  "show_nat n = (if n < 10 then [''0123456789'' ! n]
                 else show_nat (n div 10) @ [''0123456789'' ! (n mod 10)])"

declare show_nat.simps [simp del]

definition show_int :: "int \<Rightarrow> string" where
  "show_int i = (if i < 0 then CHR ''-'' # show_nat (nat (- i)) else show_nat (nat i))"

fun join :: "string \<Rightarrow> string list \<Rightarrow> string" where
  "join sep [] = []"
| "join sep [x] = x"
| "join sep (x # y # ys) = x @ sep @ join sep (y # ys)"

text \<open>
  ToString, as a template literal \<^verbatim>\<open>`${v}`\<close> applies it. It throws a TypeError for an
  object that has an own property \<^verbatim>\<open>toString\<close>: that property hides
  \<^verbatim>\<open>Object.prototype.toString\<close> and is not callable, and \<^verbatim>\<open>valueOf\<close>, own (not
  callable) or inherited (it returns the object), gives no primitive value either. An
  array joins the strings of its elements with commas, \<^verbatim>\<open>null\<close> and \<^verbatim>\<open>undefined\<close>
  elements giving the empty string, and throws when one of the other elements does.
  \<open>ToString_throws\<close> says when the conversion throws, \<open>ToString\<close> is the string it
  gives when it does not, and \<open>template\<close> puts the two together.
\<close>

fun ToString_throws :: "jsval \<Rightarrow> bool" where
  "ToString_throws (JObj fs) = (map_of fs ''toString'' \<noteq> None)"
| "ToString_throws (JArr xs) = (\<exists>x \<in> set xs. \<not> nullish x \<and> ToString_throws x)"
| "ToString_throws _ = False"

fun ToString :: "jsval \<Rightarrow> string" where
  "ToString JUndefined = ''undefined''"
| "ToString JNull = ''null''"
| "ToString (JBool b) = (if b then ''true'' else ''false'')"
| "ToString (JNum n) = show_int (sint n)"
| "ToString JNaN = ''NaN''"
| "ToString (JStr s) = s"
| "ToString (JBigInt n) = show_int n"
| "ToString (JArr xs) = join '','' (map (\<lambda>x. if nullish x then [] else ToString x) xs)"
| "ToString (JObj _) = ''[object Object]''"

definition template :: "jsval \<Rightarrow> jsval + string" where
  "template v =
     (if ToString_throws v then Inl (type_error ''Cannot convert object to primitive value'')
      else Inr (ToString v))"

subsection \<open>JSON.stringify\<close>

definition hex_digit :: "nat \<Rightarrow> char" where
  "hex_digit n = ''0123456789abcdef'' ! (n mod 16)"

definition quote_char :: "char \<Rightarrow> string" where
  "quote_char c =
     (if c = CHR 0x22 then [CHR 0x5C, CHR 0x22]
      else if c = CHR 0x5C then [CHR 0x5C, CHR 0x5C]
      else if c = CHR 0x08 then [CHR 0x5C, CHR ''b'']
      else if c = CHR 0x0C then [CHR 0x5C, CHR ''f'']
      else if c = CHR 0x0A then [CHR 0x5C, CHR ''n'']
      else if c = CHR 0x0D then [CHR 0x5C, CHR ''r'']
      else if c = CHR 0x09 then [CHR 0x5C, CHR ''t'']
      else if of_char c < (0x20 :: nat)
        then [CHR 0x5C, CHR ''u'', CHR ''0'', CHR ''0'',
              hex_digit (of_char c div 16), hex_digit (of_char c)]
      else [c])"

definition quote :: "string \<Rightarrow> string" where
  "quote s = CHR 0x22 # concat (map quote_char s) @ [CHR 0x22]"

text \<open>A BigInt anywhere in the value makes JSON.stringify throw a TypeError.\<close>

fun has_bigint :: "jsval \<Rightarrow> bool" where
  "has_bigint (JBigInt _) = True"
| "has_bigint (JArr xs) = (\<exists>x \<in> set xs. has_bigint x)"
| "has_bigint (JObj fs) = (\<exists>kv \<in> set fs. has_bigint (snd kv))"
| "has_bigint _ = False"

text \<open>
  The serialisation of one value with the gap \<open>gap\<close> at the indentation \<open>ind\<close>
  (SerializeJSONProperty of ECMAScript). Inside an array \<^verbatim>\<open>undefined\<close> is written
  \<^verbatim>\<open>null\<close>, which is what \<open>ser\<close> gives for it; inside an object a property whose
  value is \<^verbatim>\<open>undefined\<close> is left out. A BigInt has no serialisation:
  \<open>JSON_stringify\<close> below throws before \<open>ser\<close> is applied to a value that holds one.
\<close>

definition wrap :: "char \<Rightarrow> char \<Rightarrow> string \<Rightarrow> string \<Rightarrow> string list \<Rightarrow> string" where
  "wrap l r gap ind parts =
     (if parts = [] then [l, r]
      else if gap = [] then l # join '','' parts @ [r]
      else l # CHR 0x0A # (ind @ gap)
             @ join (CHR '','' # CHR 0x0A # (ind @ gap)) parts
             @ CHR 0x0A # ind @ [r])"

fun ser :: "string \<Rightarrow> string \<Rightarrow> jsval \<Rightarrow> string" where
  "ser gap ind JUndefined = ''null''"
| "ser gap ind JNull = ''null''"
| "ser gap ind (JBool b) = (if b then ''true'' else ''false'')"
| "ser gap ind (JNum n) = show_int (sint n)"
| "ser gap ind JNaN = ''null''"
| "ser gap ind (JStr s) = quote s"
| "ser gap ind (JBigInt n) = []"
| "ser gap ind (JArr xs) = wrap CHR ''['' CHR '']'' gap ind (map (\<lambda>x. ser gap (ind @ gap) x) xs)"
| "ser gap ind (JObj fs) =
     wrap CHR ''{'' CHR ''}'' gap ind
       (map (\<lambda>kv. quote (fst kv) @ '':'' @ (if gap = [] then [] else '' '') @ ser gap (ind @ gap) (snd kv))
            (filter (\<lambda>kv. snd kv \<noteq> JUndefined) fs))"

text \<open>
  \<^verbatim>\<open>JSON.stringify(v)\<close> (\<open>gap = []\<close>) and \<^verbatim>\<open>JSON.stringify(v, null, 2)\<close>
  (\<open>gap\<close> two spaces): a thrown TypeError, \<^verbatim>\<open>undefined\<close> (\<open>None\<close>) or the text.
\<close>

definition JSON_stringify :: "string \<Rightarrow> jsval \<Rightarrow> jsval + string option" where
  "JSON_stringify gap v =
     (if has_bigint v then Inl (type_error ''Do not know how to serialize a BigInt'')
      else if v = JUndefined then Inr None
      else Inr (Some (ser gap [] v)))"

section \<open>The runtime shim: \<^verbatim>\<open>setData\<close>\<close>

text \<open>
  Of the operations \<^verbatim>\<open>createPageShim\<close> returns, \<^verbatim>\<open>setData\<close> and \<^verbatim>\<open>promptUser\<close>
  are modelled; \<^verbatim>\<open>goto\<close>, \<^verbatim>\<open>evaluate\<close>, \<^verbatim>\<open>sleep\<close>, \<^verbatim>\<open>setProgress\<close>,
  \<^verbatim>\<open>showBrowser\<close> and \<^verbatim>\<open>goHeadless\<close> take no part in the properties below.

  Non-ASCII code units of the source text, one \<^typ>\<open>char\<close> each: the horizontal
  ellipsis U+2026 appended to a truncated preview, and the em dash U+2014 of the
  no-result message.
\<close>

definition ellipsis :: char where
  "ellipsis = CHR 0x85"

definition em_dash :: char where
  "em_dash = CHR 0x97"

text \<open>
  \<^verbatim>\<open>setData(key, value)\<close> of \<^verbatim>\<open>createPageShim\<close> (lines 71-79). The result is the
  line given to \<^verbatim>\<open>console.log\<close>, or the exception that escapes: the function has no
  handler of its own, so an exception of \<^verbatim>\<open>JSON.stringify\<close>, of reading
  \<^verbatim>\<open>.length\<close> of an \<^verbatim>\<open>undefined\<close> preview, or of the template literal of line 77
  reaches the caller.
\<close>

definition setData :: "string \<Rightarrow> jsval \<Rightarrow> jsval + string" where
  "setData key value =
     (if typeof_object value \<and> value \<noteq> JNull then
        (case JSON_stringify [] value of
           Inl e \<Rightarrow> Inl e
         | Inr None \<Rightarrow> Inl (type_error ''Cannot read properties of undefined'')
         | Inr (Some preview) \<Rightarrow>
             (let display = (if length preview > 200 then take 200 preview @ [ellipsis]
                             else preview)
              in Inr (''[setData] '' @ key @ '': '' @ display)))
      else
        (case template value of
           Inl e \<Rightarrow> Inl e
         | Inr text \<Rightarrow> Inr (''[setData] '' @ key @ '': '' @ text)))"

section \<open>The result capture of the main routine\<close>

text \<open>
  What the harness prints: \<^verbatim>\<open>console.log(line)\<close>, and \<^verbatim>\<open>console.error\<close> with its
  first argument and the values that follow it.
\<close>

datatype console_line = Log string | Error string "jsval list"

text \<open>The state of the promise created at line 182.\<close>

datatype settlement = Pending | Fulfilled jsval | Rejected jsval

record coordinator =
  promise :: settlement
  console :: "console_line list"
  loaded :: bool
  attached :: bool
  timer :: "nat option"
  raised :: "jsval list"

text \<open>
  \<open>loaded\<close>: \<^verbatim>\<open>require(connectorPath)\<close> has finished; \<open>attached\<close>: the
  \<^verbatim>\<open>then\<close>/\<^verbatim>\<open>catch\<close> handlers of lines 195-199 are on the connector's promise;
  \<open>timer\<close>: the delay of the pending safety timer; \<open>raised\<close>: the exceptions that
  \<^verbatim>\<open>page.setData\<close> threw back into the connector.

  \<^verbatim>\<open>resolve\<close> and \<^verbatim>\<open>reject\<close> of a promise act on a pending promise only. No
  \<^typ>\<open>jsval\<close> is a thenable, so \<^verbatim>\<open>resolve(v)\<close> fulfils the promise with \<open>v\<close>.
\<close>

definition resolve :: "jsval \<Rightarrow> coordinator \<Rightarrow> coordinator" where
  "resolve v s = (if promise s = Pending then s\<lparr>promise := Fulfilled v\<rparr> else s)"

definition reject :: "jsval \<Rightarrow> coordinator \<Rightarrow> coordinator" where
  "reject e s = (if promise s = Pending then s\<lparr>promise := Rejected e\<rparr> else s)"

text \<open>
  The replacement of \<^verbatim>\<open>pageShim.setData\<close> (lines 185-188): the original runs first,
  and when it throws, the exception leaves the function before \<^verbatim>\<open>resolve\<close>.
\<close>

definition setData_override :: "string \<Rightarrow> jsval \<Rightarrow> coordinator \<Rightarrow> coordinator" where
  "setData_override key value s =
     (case setData key value of
        Inl e \<Rightarrow> s\<lparr>raised := raised s @ [e]\<rparr>
      | Inr line \<Rightarrow>
          (let s' = s\<lparr>console := console s @ [Log line]\<rparr>
           in if key = ''result'' then resolve value s' else s'))"

text \<open>
  The property read \<^verbatim>\<open>v.k\<close> where the source has made sure that \<open>v\<close> is truthy.
\<close>

definition member :: "jsval \<Rightarrow> string \<Rightarrow> jsval" where
  "member v k = (case get_prop v k of Inr x \<Rightarrow> x | Inl _ \<Rightarrow> JUndefined)"

text \<open>
  The \<^verbatim>\<open>then\<close> callback of line 195-199, \<^verbatim>\<open>if (r && r.data) resolve(r.data)\<close>, and
  the \<^verbatim>\<open>catch(reject)\<close> chained on it.
\<close>

definition then_callback :: "jsval \<Rightarrow> coordinator \<Rightarrow> jsval + coordinator" where
  "then_callback r s =
     (if truthy r then
        (case get_prop r ''data'' of
           Inl e \<Rightarrow> Inl e
         | Inr d \<Rightarrow> Inr (if truthy d then resolve d s else s))
      else Inr s)"

definition on_fulfilled :: "jsval \<Rightarrow> coordinator \<Rightarrow> coordinator" where
  "on_fulfilled r s = (case then_callback r s of Inl e \<Rightarrow> reject e s | Inr s' \<Rightarrow> s')"

definition safety_timeout_ms :: nat where
  "safety_timeout_ms = 30 * 60 * 1000"

text \<open>
  What \<^verbatim>\<open>require(connectorPath)\<close> does at line 193: it throws, or it returns the
  connector's promise, or it returns a value of another kind. No \<^typ>\<open>jsval\<close> has a
  \<^verbatim>\<open>then\<close> method, so the test of line 194 holds of the promise only.
\<close>

datatype load = Threw jsval | Returned_promise | Returned jsval

fun thenable :: "load \<Rightarrow> bool" where
  "thenable Returned_promise = True"
| "thenable _ = False"

text \<open>
  The events of one run, in the order the event loop delivers them:
  \<^item> \<open>Emit key value\<close>: the connector calls \<^verbatim>\<open>page.setData(key, value)\<close>;
  \<^item> \<open>Loaded l\<close>: \<^verbatim>\<open>require\<close> finishes as \<open>l\<close> says; lines 194-206 run;
  \<^item> \<open>Fulfils r\<close>, \<open>Rejects err\<close>: the promise that \<^verbatim>\<open>require\<close> returned settles;
  \<^item> \<open>TimerFires\<close>: the safety timer of line 206 elapses;
  \<^item> \<open>Resumes\<close>: the main routine, waiting at the \<^verbatim>\<open>await\<close> of line 182, goes on;
  \<^item> \<open>Closes\<close>: \<^verbatim>\<open>context.close()\<close> of line 213 has finished and the main routine
    goes on from there.
  The last two are steps of the main routine itself and leave the promise as it is;
  they say where its output falls among the output of the other events. An event that
  cannot occur in the state it meets (a second \<open>Loaded\<close>, a settling of a promise
  without handlers, a timer that is not pending) leaves the state as it is.
  The lists of events are not restricted further: they include every run of the
  harness, and also lists in which the connector's promise settles more than once.
\<close>

datatype event =
    Emit string jsval
  | Loaded load
  | Fulfils jsval
  | Rejects jsval
  | TimerFires
  | Resumes
  | Closes

fun handle :: "event \<Rightarrow> coordinator \<Rightarrow> coordinator" where
  "handle (Emit key value) s = setData_override key value s"
| "handle (Loaded l) s =
     (if loaded s then s
      else
        (let s1 = (case l of
                     Threw err \<Rightarrow> reject err s
                   | _ \<Rightarrow> if thenable l then s\<lparr>attached := True\<rparr> else s)
         in s1\<lparr>loaded := True, timer := Some safety_timeout_ms\<rparr>))"
| "handle (Fulfils r) s = (if attached s then on_fulfilled r s else s)"
| "handle (Rejects err) s = (if attached s then reject err s else s)"
| "handle TimerFires s =
     (case timer s of
        None \<Rightarrow> s
      | Some _ \<Rightarrow> resolve JNull (s\<lparr>timer := None\<rparr>))"
| "handle Resumes s = s"
| "handle Closes s = s"

definition start :: coordinator where
  "start = \<lparr>promise = Pending, console = [], loaded = False, attached = False,
            timer = None, raised = []\<rparr>"

definition run_from :: "coordinator \<Rightarrow> event list \<Rightarrow> coordinator" where
  "run_from s es = foldl (\<lambda>s e. handle e s) s es"

definition capture :: "event list \<Rightarrow> coordinator" where
  "capture es = run_from start es"

section \<open>The main routine around the capture\<close>


definition double_rule :: char where
  "double_rule = CHR 0xCD"

text \<open>
  \<open>light_rule\<close> and \<open>double_rule\<close> are the box-drawing code units U+2500 and U+2550
  of the banners.

  The \<^verbatim>\<open>catch\<close> block of lines 208-211 for the caught value \<open>err\<close>: the line it
  prints, or the TypeError of reading \<^verbatim>\<open>err.message\<close>, which leaves the block
  before \<^verbatim>\<open>result = null\<close>.
\<close>

definition catch_block :: "jsval \<Rightarrow> jsval + console_line" where
  "catch_block err =
     (case get_prop err ''message'' of
        Inl e \<Rightarrow> Inl e
      | Inr m \<Rightarrow> Inr (Error (CHR 0x0A # ''[harness] Connector threw an error:'') [m]))"

text \<open>
  Lines 174-211: the \<^verbatim>\<open>await\<close> of the promise and the \<^verbatim>\<open>catch\<close> block. \<open>None\<close>:
  the promise is still pending and the routine waits. \<open>Some (Inr (result, lines))\<close>:
  line 213 is reached with the variable \<^verbatim>\<open>result\<close>, the \<^verbatim>\<open>catch\<close> block having
  printed \<open>lines\<close>. \<open>Some (Inl e)\<close>: the \<^verbatim>\<open>catch\<close> block threw \<open>e\<close>, so the routine
  ends there with \<open>e\<close> unhandled.
\<close>

definition awaited :: "coordinator \<Rightarrow> (jsval + jsval \<times> console_line list) option" where
  "awaited s =
     (case promise s of
        Pending \<Rightarrow> None
      | Fulfilled v \<Rightarrow> Some (Inr (v, []))
      | Rejected err \<Rightarrow>
          (case catch_block err of
             Inl e \<Rightarrow> Some (Inl e)
           | Inr line \<Rightarrow> Some (Inr (JNull, [line]))))"

text \<open>The variable \<^verbatim>\<open>result\<close> at line 213, when that line is reached.\<close>

definition result_of :: "coordinator \<Rightarrow> jsval option" where
  "result_of s = (case awaited s of Some (Inr (v, _)) \<Rightarrow> Some v | _ \<Rightarrow> None)"

text \<open>\<^verbatim>\<open>a || b\<close> and \<^verbatim>\<open>a ?? b\<close>.\<close>

definition or_else :: "jsval \<Rightarrow> jsval \<Rightarrow> jsval" where
  "or_else a b = (if truthy a then a else b)"

definition coalesce :: "jsval \<Rightarrow> jsval \<Rightarrow> jsval" where
  "coalesce a b = (if nullish a then b else a)"

text \<open>
  The summary block, lines 221-232; \<open>summary\<close> is truthy there. Each
  \<^verbatim>\<open>console.log\<close> statement prints its line or, when the template literal of its
  argument throws, ends the block with that exception; \<open>print_all\<close> runs the statements
  in order and gives the lines printed and the exception, if any.
\<close>

definition labelled :: "string \<Rightarrow> jsval \<Rightarrow> jsval + console_line" where
  "labelled label v =
     (case template v of Inl e \<Rightarrow> Inl e | Inr text \<Rightarrow> Inr (Log (label @ text)))"

definition summary_lines :: "jsval \<Rightarrow> (jsval + console_line) list" where
  "summary_lines summary =
     [Inr (Log (CHR 0x0A # replicate 43 double_rule)),
      Inr (Log ''  Export Summary''),
      Inr (Log (replicate 43 double_rule)),
      labelled ''  Profile:        '' (or_else (member summary ''profile'') (JStr ''n/a'')),
      labelled ''  Subscriptions:  '' (coalesce (member summary ''subscriptions'') (JStr ''n/a'')),
      labelled ''  Playlists:      '' (coalesce (member summary ''playlists'') (JStr ''n/a'')),
      labelled ''  Playlist items: '' (coalesce (member summary ''playlistItems'') (JStr ''n/a'')),
      labelled ''  Likes:          '' (coalesce (member summary ''likes'') (JStr ''n/a'')),
      labelled ''  Watch Later:    '' (coalesce (member summary ''watchLater'') (JStr ''n/a'')),
      labelled ''  History:        '' (coalesce (member summary ''history'') (JStr ''n/a'')),
      Inr (Log (replicate 43 double_rule @ [CHR 0x0A]))]"

fun print_all :: "(jsval + console_line) list \<Rightarrow> console_line list \<times> jsval option" where
  "print_all [] = ([], None)"
| "print_all (Inl e # rest) = ([], Some e)"
| "print_all (Inr line # rest) = (case print_all rest of (lines, x) \<Rightarrow> (line # lines, x))"

text \<open>
  How the main routine ends: \<^verbatim>\<open>process.exit\<close> is called with a code, which ends the
  process at once; or an exception that nothing handles leaves it (its promise
  rejects), which ends the process as well (Node 15 and later); or it returns. The
  routine calls \<^verbatim>\<open>process.exit\<close> at line 217 only: when it returns, the process lives
  on for as long as something is pending, such as the safety timer, which no line
  clears, and then ends with the exit code 0 that Node gives by default.
\<close>

datatype ending = Exit_code nat | Unhandled jsval | Returns

record report =
  printed :: "console_line list"
  context_closed :: bool
  files :: "(string \<times> string) list"
  ending :: ending

text \<open>
  \<^verbatim>\<open>path.join\<close> of Node for POSIX paths: the arguments that are not empty are joined
  with a slash and the result is normalised. \<open>segment\<close> takes one segment of the path
  to the segments kept so far, the last one first.
\<close>

fun split_on :: "char \<Rightarrow> string \<Rightarrow> string list" where
  "split_on c [] = [[]]"
| "split_on c (x # xs) =
     (if x = c then [] # split_on c xs
      else (case split_on c xs of [] \<Rightarrow> [[x]] | s # ss \<Rightarrow> (x # s) # ss))"

definition segment :: "bool \<Rightarrow> string list \<Rightarrow> string \<Rightarrow> string list" where
  "segment allowAboveRoot kept seg =
     (if seg = [] \<or> seg = ''.'' then kept
      else if seg = ''..'' then
        (case kept of
           [] \<Rightarrow> if allowAboveRoot then [''..''] else []
         | newest # older \<Rightarrow>
             if newest = ''..'' then (if allowAboveRoot then ''..'' # kept else kept)
             else older)
      else seg # kept)"

definition normalizeString :: "bool \<Rightarrow> string \<Rightarrow> string" where
  "normalizeString allowAboveRoot path =
     join ''/'' (rev (foldl (segment allowAboveRoot) [] (split_on (CHR ''/'') path)))"

definition normalize :: "string \<Rightarrow> string" where
  "normalize path =
     (case path of
        [] \<Rightarrow> ''.''
      | c # _ \<Rightarrow>
          (let isAbsolute = (c = CHR ''/'');
               trailingSeparator = (last path = CHR ''/'');
               p = normalizeString (\<not> isAbsolute) path
           in if p = [] then (if isAbsolute then ''/'' else if trailingSeparator then ''./'' else ''.'')
              else (if isAbsolute then ''/'' else []) @ p @ (if trailingSeparator then ''/'' else [])))"

definition path_join :: "string list \<Rightarrow> string" where
  "path_join args =
     (case filter (\<lambda>arg. arg \<noteq> []) args of
        [] \<Rightarrow> ''.''
      | parts \<Rightarrow> normalize (join ''/'' parts))"

text \<open>Line 234, for the working directory \<open>cwd\<close> that \<^verbatim>\<open>process.cwd()\<close> gives.\<close>

definition outputPath :: "string \<Rightarrow> string" where
  "outputPath cwd = path_join [cwd, ''youtube-export.json'']"

definition no_result_message :: string where
  "no_result_message =
     CHR 0x0A # ''[harness] No result captured '' @ [em_dash] @ '' check errors above.''"

text \<open>
  Lines 213-236 from the moment \<^verbatim>\<open>context.close()\<close> has finished, for the value of
  \<^verbatim>\<open>result\<close> and the console so far. \<^verbatim>\<open>context.close()\<close> and \<^verbatim>\<open>fs.writeFileSync\<close> of
  a string are taken to succeed; \<^verbatim>\<open>fs.writeFileSync\<close> of \<^verbatim>\<open>undefined\<close> throws.
\<close>

definition finish :: "string \<Rightarrow> jsval \<Rightarrow> console_line list \<Rightarrow> report" where
  "finish cwd result out =
     (if \<not> truthy result then
        \<lparr>printed = out @ [Error no_result_message []], context_closed = True,
         files = [], ending = Exit_code 1\<rparr>
      else
        (let summary = or_else (member result ''exportSummary'') (JObj [])
         in case print_all (summary_lines summary) of
              (lines, Some e) \<Rightarrow>
                \<lparr>printed = out @ lines, context_closed = True, files = [],
                 ending = Unhandled e\<rparr>
            | (lines, None) \<Rightarrow>
                (case JSON_stringify ''  '' result of
                   Inl e \<Rightarrow>
                     \<lparr>printed = out @ lines, context_closed = True, files = [],
                      ending = Unhandled e\<rparr>
                 | Inr None \<Rightarrow>
                     \<lparr>printed = out @ lines, context_closed = True, files = [],
                      ending = Unhandled (type_error ''The data argument must be of type string'')\<rparr>
                 | Inr (Some text) \<Rightarrow>
                     \<lparr>printed = out @ lines
                        @ [Log (''[harness] Output written to: '' @ outputPath cwd)],
                      context_closed = True, files = [(outputPath cwd, text)],
                      ending = Returns\<rparr>)))"

text \<open>
  The process from line 173 on, with the browser context launched and the shim
  installed as \<^verbatim>\<open>global.page\<close> (lines 150-171). \<open>co\<close> is the state of the result
  capture, \<open>stage\<close> says where the main routine stands: at the \<^verbatim>\<open>await\<close> of line 182,
  at the \<^verbatim>\<open>await\<close> of line 213 with the variable \<^verbatim>\<open>result\<close>, or at its end.
  \<open>console_out\<close> is everything printed, in order.
\<close>

datatype stage = Waiting | Closing jsval | Ended ending

record process =
  co :: coordinator
  stage :: stage
  console_out :: "console_line list"
  context_is_closed :: bool
  files_written :: "(string \<times> string) list"

text \<open>The process has ended: nothing happens in it any more.\<close>

fun over :: "stage \<Rightarrow> bool" where
  "over (Ended (Exit_code _)) = True"
| "over (Ended (Unhandled _)) = True"
| "over _ = False"

text \<open>
  The main routine goes on from line 182 once the promise is settled (lines 182 and
  208-213, up to the call of \<^verbatim>\<open>context.close()\<close>), and from line 213 once the context
  is closed (lines 213-236).
\<close>

definition resume :: "process \<Rightarrow> process" where
  "resume p =
     (case stage p of
        Waiting \<Rightarrow>
          (case awaited (co p) of
             None \<Rightarrow> p
           | Some (Inl e) \<Rightarrow> p\<lparr>stage := Ended (Unhandled e)\<rparr>
           | Some (Inr (result, lines)) \<Rightarrow>
               p\<lparr>stage := Closing result, console_out := console_out p @ lines\<rparr>)
      | _ \<Rightarrow> p)"

definition closes :: "string \<Rightarrow> process \<Rightarrow> process" where
  "closes cwd p =
     (case stage p of
        Closing result \<Rightarrow>
          (let r = finish cwd result (console_out p)
           in p\<lparr>stage := Ended (ending r), console_out := printed r,
                context_is_closed := context_closed r, files_written := files r\<rparr>)
      | _ \<Rightarrow> p)"

text \<open>
  An event of the connector or of the timer in a process that has not ended: the
  result capture handles it, and what \<^verbatim>\<open>page.setData\<close> has printed goes to the
  console.
\<close>

definition outside :: "event \<Rightarrow> process \<Rightarrow> process" where
  "outside e p =
     (let c = handle e (co p)
      in p\<lparr>co := c,
           console_out := console_out p @ drop (length (console (co p))) (console c)\<rparr>)"

definition advance :: "string \<Rightarrow> event \<Rightarrow> process \<Rightarrow> process" where
  "advance cwd e p =
     (if over (stage p) then p
      else (case e of
              Resumes \<Rightarrow> resume p
            | Closes \<Rightarrow> closes cwd p
            | _ \<Rightarrow> outside e p))"

definition boot :: process where
  "boot = \<lparr>co = start, stage = Waiting, console_out = [], context_is_closed = False,
           files_written = []\<rparr>"

definition execute_from :: "string \<Rightarrow> process \<Rightarrow> event list \<Rightarrow> process" where
  "execute_from cwd p es = foldl (\<lambda>p e. advance cwd e p) p es"

definition execute :: "string \<Rightarrow> event list \<Rightarrow> process" where
  "execute cwd es = execute_from cwd boot es"

text \<open>
  The main routine for the events of a run: what has been printed, closed and written
  and how the routine has ended, or \<open>None\<close> as long as it has not ended.
\<close>

definition main :: "string \<Rightarrow> event list \<Rightarrow> report option" where
  "main cwd es =
     (let p = execute cwd es
      in case stage p of
           Ended e \<Rightarrow>
             Some \<lparr>printed = console_out p, context_closed = context_is_closed p,
                   files = files_written p, ending = e\<rparr>
         | _ \<Rightarrow> None)"

section \<open>The interaction gate: \<^verbatim>\<open>promptUser\<close>\<close>

text \<open>
  One invocation of the callback ends in a truthy value, a falsy value or an exception
  (thrown, or a rejected promise).
\<close>

datatype answer = Truthy | Falsy | Raises jsval

text \<open>
  Where the polling loop stands: suspended at \<^verbatim>\<open>await callback()\<close>, waiting for the
  timer set by \<^verbatim>\<open>setTimeout(poll, intervalMs)\<close> with the given delay, or returned
  without a new timer.
\<close>

datatype phase = Awaiting | Sleeping nat | Stopped

record gate =
  done_flag :: bool
  settled :: bool
  resumed :: nat
  phase :: phase
  listening :: bool
  intervalMs :: nat
  invocations :: nat

text \<open>
  \<open>done_flag\<close> is the variable \<^verbatim>\<open>done\<close>; \<open>settled\<close> is the state of the promise
  \<^verbatim>\<open>promptUser\<close> returns and \<open>resumed\<close> counts how often the caller awaiting it has
  been resumed; \<open>listening\<close>: the \<^verbatim>\<open>once('line')\<close> listener of \<^verbatim>\<open>waitForEnter\<close> is
  in place; \<open>invocations\<close> counts the calls of the callback.
\<close>

definition gate_resolve :: "gate \<Rightarrow> gate" where
  "gate_resolve g = (if settled g then g else g\<lparr>settled := True, resumed := Suc (resumed g)\<rparr>)"

text \<open>\<^verbatim>\<open>poll\<close> from its entry to the \<^verbatim>\<open>await\<close> (lines 119-121).\<close>

definition poll_enter :: "gate \<Rightarrow> gate" where
  "poll_enter g =
     (if done_flag g then g\<lparr>phase := Stopped\<rparr>
      else g\<lparr>phase := Awaiting, invocations := Suc (invocations g)\<rparr>)"

text \<open>
  The rest of the \<^verbatim>\<open>try\<close> block once the callback has answered (lines 121-126):
  \<open>Inl\<close> the exception of the callback, \<open>Inr (True, g)\<close> after the \<^verbatim>\<open>return\<close> of
  line 125, \<open>Inr (False, g)\<close> when the block falls through.
\<close>

fun try_block :: "answer \<Rightarrow> gate \<Rightarrow> jsval + bool \<times> gate" where
  "try_block (Raises e) g = Inl e"
| "try_block Truthy g = Inr (True, gate_resolve (g\<lparr>done_flag := True\<rparr>))"
| "try_block Falsy g = Inr (False, g)"

text \<open>Line 130.\<close>

definition reschedule :: "gate \<Rightarrow> gate" where
  "reschedule g =
     (if \<not> done_flag g then g\<lparr>phase := Sleeping (intervalMs g)\<rparr> else g\<lparr>phase := Stopped\<rparr>)"

text \<open>\<^verbatim>\<open>poll\<close> from the answer of the callback to its end (lines 121-130).\<close>

definition poll_resume :: "answer \<Rightarrow> gate \<Rightarrow> gate" where
  "poll_resume a g =
     (case try_block a g of
        Inl _ \<Rightarrow> reschedule g
      | Inr (True, g') \<Rightarrow> g'\<lparr>phase := Stopped\<rparr>
      | Inr (False, g') \<Rightarrow> reschedule g')"

text \<open>The handler of lines 134-139, run when \<^verbatim>\<open>waitForEnter\<close> resolves.\<close>

definition on_enter :: "gate \<Rightarrow> gate" where
  "on_enter g = (if \<not> done_flag g then gate_resolve (g\<lparr>done_flag := True\<rparr>) else g)"

text \<open>
  The events of a gate: the pending invocation of the callback answers, the pending
  timer elapses, the operator enters a line. An answer without a pending invocation, a
  tick without a pending timer and a line after the first one (the listener is removed
  by \<^verbatim>\<open>once\<close> and \<^verbatim>\<open>rl.close()\<close>) cannot occur and leave the state as it is.
\<close>

datatype gate_event = Answer answer | Tick | Enter

fun gate_step :: "gate_event \<Rightarrow> gate \<Rightarrow> gate" where
  "gate_step (Answer a) g = (if phase g = Awaiting then poll_resume a g else g)"
| "gate_step Tick g = (case phase g of Sleeping _ \<Rightarrow> poll_enter g | _ \<Rightarrow> g)"
| "gate_step Enter g = (if listening g then on_enter (g\<lparr>listening := False\<rparr>) else g)"


definition gate_run :: "gate \<Rightarrow> gate_event list \<Rightarrow> gate" where
  "gate_run g es = foldl (\<lambda>g e. gate_step e g) g es"

section \<open>Notions used to state the properties\<close>

text \<open>
  The number of events of a run, started in state \<open>s\<close>, that change the state of the
  promise.
\<close>

fun changes :: "coordinator \<Rightarrow> event list \<Rightarrow> nat" where
  "changes s [] = 0"
| "changes s (e # es) =
     (if promise (handle e s) \<noteq> promise s then 1 else 0) + changes (handle e s) es"

definition settlements :: "event list \<Rightarrow> nat" where
  "settlements es = changes start es"

text \<open>
  The four ways in which the promise is settled, and what an event hands to
  \<^verbatim>\<open>resolve\<close> or \<^verbatim>\<open>reject\<close> when it does so.
\<close>

datatype path = Explicit_signal | Fallback_signal | Safety_timeout | Connector_error

fun path_of :: "event \<Rightarrow> path option" where
  "path_of (Emit key value) = (if key = ''result'' then Some Explicit_signal else None)"
| "path_of (Fulfils r) = Some Fallback_signal"
| "path_of TimerFires = Some Safety_timeout"
| "path_of (Loaded (Threw err)) = Some Connector_error"
| "path_of (Rejects err) = Some Connector_error"
| "path_of _ = None"

definition valid_fallback :: "jsval \<Rightarrow> bool" where
  "valid_fallback r = (truthy r \<and> truthy (member r ''data''))"

fun delivers :: "event \<Rightarrow> settlement option" where
  "delivers (Emit key value) =
     (case setData key value of
        Inl _ \<Rightarrow> None
      | Inr _ \<Rightarrow> if key = ''result'' then Some (Fulfilled value) else None)"
| "delivers (Fulfils r) =
     (if valid_fallback r then Some (Fulfilled (member r ''data'')) else None)"
| "delivers TimerFires = Some (Fulfilled JNull)"
| "delivers (Loaded (Threw err)) = Some (Rejected err)"
| "delivers (Rejects err) = Some (Rejected err)"
| "delivers _ = None"

text \<open>What the handler of an event prints, and what the handlers of a run print.\<close>

fun logs :: "event \<Rightarrow> console_line list" where
  "logs (Emit key value) = (case setData key value of Inl _ \<Rightarrow> [] | Inr line \<Rightarrow> [Log line])"
| "logs _ = []"

text \<open>
  What the summary block prints for the outcome \<open>result\<close>, and the exception that ends
  it, if any.
\<close>

definition summary_printed :: "jsval \<Rightarrow> console_line list" where
  "summary_printed result =
     fst (print_all (summary_lines (or_else (member result ''exportSummary'') (JObj []))))"

definition summary_exception :: "jsval \<Rightarrow> jsval option" where
  "summary_exception result =
     snd (print_all (summary_lines (or_else (member result ''exportSummary'') (JObj []))))"

text \<open>The value of the first \<^verbatim>\<open>setData("result", ...)\<close> call of a run.\<close>

fun first_result :: "event list \<Rightarrow> jsval option" where
  "first_result [] = None"
| "first_result (Emit key value # es) =
     (if key = ''result'' then Some value else first_result es)"
| "first_result (_ # es) = first_result es"

text \<open>
  A completion value of the shape \<^verbatim>\<open>{ success, data }\<close>: an object with both
  properties.
\<close>

fun success_data_shaped :: "jsval \<Rightarrow> bool" where
  "success_data_shaped (JObj fs) = (map_of fs ''success'' \<noteq> None \<and> map_of fs ''data'' \<noteq> None)"
| "success_data_shaped _ = False"

text \<open>The values a run throws or rejects with.\<close>

fun thrown :: "event \<Rightarrow> jsval option" where
  "thrown (Loaded (Threw err)) = Some err"
| "thrown (Rejects err) = Some err"
| "thrown _ = None"

definition proper_errors :: "event list \<Rightarrow> bool" where
  "proper_errors es = list_all (\<lambda>e. case thrown e of None \<Rightarrow> True | Some err \<Rightarrow> \<not> nullish err) es"

text \<open>
  A promise that cannot give the main routine anything but \<^verbatim>\<open>null\<close>: pending,
  resolved with \<^verbatim>\<open>null\<close>, or rejected with a value whose \<^verbatim>\<open>message\<close> can be read.
\<close>

definition null_bound :: "coordinator \<Rightarrow> bool" where
  "null_bound s =
     (case promise s of
        Pending \<Rightarrow> True
      | Fulfilled v \<Rightarrow> v = JNull
      | Rejected err \<Rightarrow> \<not> nullish err)"

text \<open>
  An error of the connector that reaches the promise in state \<open>s\<close>: \<^verbatim>\<open>require\<close>
  throws, or the promise it returned, with the handlers on it, rejects.
\<close>

fun raises_in :: "coordinator \<Rightarrow> event \<Rightarrow> jsval \<Rightarrow> bool" where
  "raises_in s (Loaded (Threw x)) err = (x = err \<and> \<not> loaded s)"
| "raises_in s (Rejects x) err = (x = err \<and> attached s)"
| "raises_in s _ err = False"






section \<open>Properties of the result capture\<close>

lemmas run_simps = capture_def run_from_def start_def reject_def resolve_def
  setData_override_def setData_def on_fulfilled_def then_callback_def
  show_int_def show_nat.simps awaited_def catch_block_def result_of_def member_def Let_def
  JSON_stringify_def wrap_def quote_def quote_char_def template_def

lemma run_from_append: "run_from s (xs @ ys) = run_from (run_from s xs) ys"
  by (simp add: run_from_def)

lemma run_from_Cons: "run_from s (e # es) = run_from (handle e s) es"
  by (simp add: run_from_def)

lemma run_from_Nil: "run_from s [] = s"
  by (simp add: run_from_def)

lemma capture_append: "capture (xs @ ys) = run_from (capture xs) ys"
  by (simp add: capture_def run_from_append)

lemma promise_resolve: "promise (resolve v s) = (if promise s = Pending then Fulfilled v else promise s)"
  by (simp add: resolve_def)

lemma promise_reject: "promise (reject e s) = (if promise s = Pending then Rejected e else promise s)"
  by (simp add: reject_def)

lemma promise_setData_override:
  "promise (setData_override key value s) =
     (if promise s = Pending \<and> delivers (Emit key value) \<noteq> None then Fulfilled value else promise s)"
  by (simp add: setData_override_def promise_resolve Let_def split: sum.splits)

lemma get_prop_truthy: "truthy r \<Longrightarrow> get_prop r k = Inr (member r k)"
  by (cases r) (simp_all add: member_def)

lemma promise_on_fulfilled:
  "promise (on_fulfilled r s) =
     (if promise s = Pending \<and> valid_fallback r then Fulfilled (member r ''data'') else promise s)"
  by (simp add: on_fulfilled_def then_callback_def valid_fallback_def get_prop_truthy promise_resolve)

lemma handle_settled: "promise s \<noteq> Pending \<Longrightarrow> promise (handle e s) = promise s"
proof (cases e)
  case (Loaded l)
  assume "promise s \<noteq> Pending"
  then show ?thesis using Loaded
    by (cases l) (simp_all add: Let_def promise_reject)
qed (simp_all add: promise_setData_override promise_on_fulfilled promise_reject promise_resolve
      split: option.splits)

lemma run_from_settled: "promise s \<noteq> Pending \<Longrightarrow> promise (run_from s es) = promise s"
  by (induction es arbitrary: s) (simp_all add: run_from_Nil run_from_Cons handle_settled)

lemma handle_delivers:
  "promise s = Pending \<Longrightarrow> promise (handle e s) \<noteq> Pending \<Longrightarrow> delivers e = Some (promise (handle e s))"
proof (cases e)
  case (Loaded l)
  assume "promise s = Pending" "promise (handle e s) \<noteq> Pending"
  then show ?thesis using Loaded
    by (cases l) (simp_all add: Let_def promise_reject split: if_splits)
next
  case (Emit k v)
  assume "promise s = Pending" "promise (handle e s) \<noteq> Pending"
  then show ?thesis using Emit
    by (auto simp add: promise_setData_override split: if_splits sum.splits)
qed (auto simp add: promise_on_fulfilled promise_reject promise_resolve
      split: option.splits if_splits)

lemma changes_count:
  "changes s es = (if promise s = Pending \<and> promise (run_from s es) \<noteq> Pending then 1 else 0)"
proof (induction es arbitrary: s)
  case Nil
  then show ?case by (simp add: run_from_Nil)
next
  case (Cons e es)
  show ?case
  proof (cases "promise s = Pending")
    case True
    then show ?thesis
      by (simp add: Cons.IH run_from_Cons run_from_settled)
  next
    case False
    then show ?thesis
      by (simp add: Cons.IH run_from_Cons handle_settled run_from_settled)
  qed
qed


lemma capture_snoc: "capture (pre @ [e]) = handle e (capture pre)"
  by (simp add: capture_append run_from_Cons run_from_Nil)

lemma capture_split: "capture (pre @ e # post) = run_from (handle e (capture pre)) post"
  by (simp add: capture_append run_from_Cons)

lemma setData_falls_through:
  "\<not> (typeof_object value \<and> value \<noteq> JNull) \<Longrightarrow>
     setData key value = Inr (''[setData] '' @ key @ '': '' @ ToString value)"
proof -
  assume "\<not> (typeof_object value \<and> value \<noteq> JNull)"
  moreover from this have "\<not> ToString_throws value"
    by (cases "value") simp_all
  ultimately show ?thesis
    by (auto simp add: setData_def template_def)
qed

lemma result_of_Fulfilled: "promise s = Fulfilled v \<Longrightarrow> result_of s = Some v"
  by (simp add: result_of_def awaited_def)

lemma get_prop_not_nullish: "\<not> nullish err \<Longrightarrow> get_prop err k = Inr (member err k)"
  by (cases err) (simp_all add: member_def)

lemma catch_block_not_nullish:
  "\<not> nullish err \<Longrightarrow>
   catch_block err
     = Inr (Error (CHR 0x0A # ''[harness] Connector threw an error:'') [member err ''message''])"
  by (simp add: catch_block_def get_prop_not_nullish)

lemma catch_block_nullish: "nullish err \<Longrightarrow> \<exists>e. catch_block err = Inl e"
  by (cases err) (simp_all add: catch_block_def)

lemma result_of_Rejected: "promise s = Rejected err \<Longrightarrow> \<not> nullish err \<Longrightarrow> result_of s = Some JNull"
  by (simp add: result_of_def awaited_def catch_block_not_nullish)

lemma result_of_Rejected_nullish: "promise s = Rejected err \<Longrightarrow> nullish err \<Longrightarrow> result_of s = None"
  using catch_block_nullish [of err] by (auto simp add: result_of_def awaited_def)


text \<open>
  Claim C1, as amended. In every run at most one event settles the promise of the
  result capture: the number of events that change its state is 0 while it is pending
  and 1 once it is settled; an event that meets a settled promise leaves it as it is;
  and the one event that settles it is on one of four paths (the explicit
  \<^verbatim>\<open>setData("result", ...)\<close> signal, the fallback from the connector's completion
  value, the safety timeout, or an error of the connector) and alone determines the
  outcome: the value it resolves the promise with, or \<^verbatim>\<open>null\<close> when it rejects the
  promise with an error that is a value other than \<^verbatim>\<open>null\<close> and \<^verbatim>\<open>undefined\<close>.
\<close>

theorem coordinator_settles_at_most_once:
  "settlements es = (if promise (capture es) = Pending then 0 else 1)
   \<and> (\<forall>pre post. es = pre @ post \<longrightarrow> promise (capture pre) \<noteq> Pending
         \<longrightarrow> promise (capture es) = promise (capture pre))
   \<and> (\<forall>pre e post. es = pre @ e # post \<longrightarrow> promise (capture pre) = Pending
         \<longrightarrow> promise (capture (pre @ [e])) \<noteq> Pending
         \<longrightarrow> delivers e = Some (promise (capture es)) \<and> path_of e \<noteq> None
             \<and> (\<forall>v. delivers e = Some (Fulfilled v) \<longrightarrow> result_of (capture es) = Some v)
             \<and> (\<forall>err. delivers e = Some (Rejected err) \<longrightarrow> \<not> nullish err
                   \<longrightarrow> result_of (capture es) = Some JNull))"
proof (intro conjI allI impI)
  show "settlements es = (if promise (capture es) = Pending then 0 else 1)"
    by (simp add: settlements_def changes_count capture_def start_def)
next
  fix pre post
  assume "es = pre @ post" "promise (capture pre) \<noteq> Pending"
  then show "promise (capture es) = promise (capture pre)"
    by (simp add: capture_append run_from_settled)
next
  fix pre e post
  assume es: "es = pre @ e # post" and p: "promise (capture pre) = Pending"
    and q: "promise (capture (pre @ [e])) \<noteq> Pending"
  from q have q': "promise (handle e (capture pre)) \<noteq> Pending"
    by (simp add: capture_snoc)
  have "promise (capture es) = promise (handle e (capture pre))"
    using es q' by (simp add: capture_split run_from_settled)
  with handle_delivers [OF p q'] show d: "delivers e = Some (promise (capture es))"
    by simp
  then show "path_of e \<noteq> None"
    by (cases e rule: path_of.cases) (auto split: sum.splits if_splits)
  {
    fix v
    assume "delivers e = Some (Fulfilled v)"
    with d have "promise (capture es) = Fulfilled v"
      by simp
    then show "result_of (capture es) = Some v"
      by (rule result_of_Fulfilled)
  }
  {
    fix err
    assume "delivers e = Some (Rejected err)" and n: "\<not> nullish err"
    with d have "promise (capture es) = Rejected err"
      by simp
    then show "result_of (capture es) = Some JNull"
      using n by (rule result_of_Rejected)
  }
qed

theorem coordinator_settles_at_most_once_witness:
  "promise (capture [Loaded Returned_promise]) = Pending
   \<and> promise (capture ([Loaded Returned_promise] @ [Emit ''result'' (JNum 5)])) \<noteq> Pending
   \<and> delivers (Emit ''result'' (JNum 5))
       = Some (promise (capture [Loaded Returned_promise, Emit ''result'' (JNum 5), TimerFires]))
   \<and> promise (capture [Loaded Returned_promise, Emit ''result'' (JNum 5), TimerFires])
       = Fulfilled (JNum 5)
   \<and> settlements [Loaded Returned_promise, Emit ''result'' (JNum 5), TimerFires] = 1
   \<and> result_of (capture [Loaded Returned_promise, Emit ''result'' (JNum 5), TimerFires])
       = Some (JNum 5)
   \<and> promise (capture ([Loaded Returned_promise] @ [Rejects (JStr ''offline'')])) \<noteq> Pending
   \<and> delivers (Rejects (JStr ''offline'')) = Some (Rejected (JStr ''offline''))
   \<and> \<not> nullish (JStr ''offline'')
   \<and> result_of (capture [Loaded Returned_promise, Rejects (JStr ''offline''), TimerFires])
       = Some JNull"
proof -
  let ?pre = "[Loaded Returned_promise]"
  let ?e = "Emit ''result'' (JNum 5)"
  let ?es = "[Loaded Returned_promise, Emit ''result'' (JNum 5), TimerFires]"
  let ?r = "Rejects (JStr ''offline'')"
  let ?rs = "[Loaded Returned_promise, Rejects (JStr ''offline''), TimerFires]"
  have p: "promise (capture ?pre) = Pending"
    by (simp add: run_simps)
  have q: "promise (capture (?pre @ [?e])) \<noteq> Pending"
    by (simp add: run_simps)
  have q': "promise (capture (?pre @ [?r])) \<noteq> Pending"
    by (simp add: run_simps)
  have r: "promise (capture ?es) = Fulfilled (JNum 5)"
    by (simp add: run_simps)
  have dv: "delivers ?e = Some (Fulfilled (JNum 5))"
    by (simp add: run_simps)
  have dr: "delivers ?r = Some (Rejected (JStr ''offline''))" and n: "\<not> nullish (JStr ''offline'')"
    by simp_all
  have split: "?es = ?pre @ ?e # [TimerFires]" and split': "?rs = ?pre @ ?r # [TimerFires]"
    by simp_all
  from coordinator_settles_at_most_once [of ?es] split p q dv
  have 1: "delivers ?e = Some (promise (capture ?es))" and 2: "result_of (capture ?es) = Some (JNum 5)"
    by blast+
  from coordinator_settles_at_most_once [of ?es] r
  have 3: "settlements ?es = 1"
    by simp
  from coordinator_settles_at_most_once [of ?rs] split' p q' dr n
  have 4: "result_of (capture ?rs) = Some JNull"
    by blast
  from p q q' r dr n 1 2 3 4 show ?thesis
    by simp
qed

text \<open>
  Claim C1 as stated names three paths. In the run where \<^verbatim>\<open>require\<close> throws
  \<^verbatim>\<open>Error("boom")\<close>, the only event is on the fourth path: the promise is
  rejected at line 202 and the \<^verbatim>\<open>catch\<close> block of line 210 sets the outcome to
  \<^verbatim>\<open>null\<close>.
\<close>

theorem settled_by_connector_error:
  "path_of (Loaded (Threw (JObj [(''message'', JStr ''boom'')]))) = Some Connector_error
   \<and> settlements [Loaded (Threw (JObj [(''message'', JStr ''boom'')]))] = 1
   \<and> promise (capture [Loaded (Threw (JObj [(''message'', JStr ''boom'')]))])
       = Rejected (JObj [(''message'', JStr ''boom'')])
   \<and> result_of (capture [Loaded (Threw (JObj [(''message'', JStr ''boom'')]))]) = Some JNull"
  by (simp add: run_simps settlements_def)

text \<open>
  Claim C2, as amended. If the connector calls \<^verbatim>\<open>setData("result", V)\<close> while the
  promise is still pending, and logging \<open>V\<close> does not throw, the outcome is \<open>V\<close>,
  whatever follows: later \<^verbatim>\<open>setData("result", ...)\<close> calls, the connector's
  completion value, the safety timeout.
\<close>

theorem explicit_result_while_pending:
  assumes "promise (capture pre) = Pending"
    and "setData ''result'' V = Inr line"
  shows "promise (capture (pre @ Emit ''result'' V # post)) = Fulfilled V
         \<and> result_of (capture (pre @ Emit ''result'' V # post)) = Some V"
proof -
  have "promise (handle (Emit ''result'' V) (capture pre)) = Fulfilled V"
    using assms by (simp add: promise_setData_override)
  then show ?thesis
    by (simp add: capture_split run_from_settled result_of_Fulfilled)
qed

theorem explicit_result_while_pending_witness:
  "promise (capture [Loaded Returned_promise, Emit ''progress'' (JStr ''loading'')]) = Pending
   \<and> setData ''result'' (JObj [(''videos'', JNum 2)])
        = Inr (''[setData] result: {'' @ [CHR 0x22] @ ''videos'' @ [CHR 0x22] @ '':2}'')
   \<and> result_of (capture ([Loaded Returned_promise, Emit ''progress'' (JStr ''loading'')]
         @ Emit ''result'' (JObj [(''videos'', JNum 2)])
         # [Emit ''result'' (JNum 9), Fulfils (JObj [(''data'', JNum 1)]), TimerFires]))
       = Some (JObj [(''videos'', JNum 2)])"
proof -
  have p: "promise (capture [Loaded Returned_promise, Emit ''progress'' (JStr ''loading'')]) = Pending"
    by (simp add: run_simps)
  have l: "setData ''result'' (JObj [(''videos'', JNum 2)])
        = Inr (''[setData] result: {'' @ [CHR 0x22] @ ''videos'' @ [CHR 0x22] @ '':2}'')"
    by (simp add: run_simps)
  from explicit_result_while_pending [OF p l] p l show ?thesis
    by blast
qed

text \<open>
  Claim C2 as stated fails when the connector's promise completes with truthy
  \<^verbatim>\<open>data\<close> before the first \<^verbatim>\<open>setData("result", V)\<close>: the fallback of line 198
  has settled the promise, and \<^verbatim>\<open>resolve(V)\<close> at line 187 has no effect.
\<close>

theorem fallback_before_explicit_result:
  "first_result [Loaded Returned_promise,
       Fulfils (JObj [(''success'', JBool True), (''data'', JObj [(''videos'', JNum 1)])]),
       Emit ''result'' (JObj [(''videos'', JNum 2)])]
     = Some (JObj [(''videos'', JNum 2)])
   \<and> result_of (capture [Loaded Returned_promise,
       Fulfils (JObj [(''success'', JBool True), (''data'', JObj [(''videos'', JNum 1)])]),
       Emit ''result'' (JObj [(''videos'', JNum 2)])])
     = Some (JObj [(''videos'', JNum 1)])"
  by (simp add: run_simps)




lemma first_result_None_Emit: "first_result es = None \<Longrightarrow> Emit k v \<in> set es \<Longrightarrow> k \<noteq> ''result''"
  by (induction es rule: first_result.induct) (auto split: if_splits)

lemma first_result_None: "first_result es = None \<Longrightarrow> e \<in> set es \<Longrightarrow> path_of e \<noteq> Some Explicit_signal"
  by (cases e rule: path_of.cases) (auto dest: first_result_None_Emit)

lemma proper_errors_thrown: "proper_errors es \<Longrightarrow> e \<in> set es \<Longrightarrow> thrown e = Some err \<Longrightarrow> \<not> nullish err"
  by (auto simp add: proper_errors_def list_all_iff split: option.splits)

lemma handle_null_bound:
  assumes "null_bound s"
    and "path_of e \<noteq> Some Explicit_signal"
    and "\<forall>r. e = Fulfils r \<longrightarrow> \<not> valid_fallback r"
    and "\<forall>err. thrown e = Some err \<longrightarrow> \<not> nullish err"
  shows "null_bound (handle e s)"
proof (cases "promise s = Pending")
  case False
  then show ?thesis
    using assms(1) by (simp add: null_bound_def handle_settled)
next
  case True
  show ?thesis
  proof (cases "promise (handle e s) = Pending")
    case True
    then show ?thesis by (simp add: null_bound_def)
  next
    case False
    define st where "st = promise (handle e s)"
    with handle_delivers [OF True False] have "delivers e = Some st"
      by simp
    then have "case st of Pending \<Rightarrow> True | Fulfilled v \<Rightarrow> v = JNull
                 | Rejected err \<Rightarrow> \<not> nullish err"
      using assms(2-4)
      by (cases e rule: delivers.cases) (auto split: sum.splits if_splits)
    then show ?thesis
      by (simp add: null_bound_def st_def)
  qed
qed

lemma run_from_null_bound:
  assumes "null_bound s"
    and "\<forall>e \<in> set es. path_of e \<noteq> Some Explicit_signal"
    and "\<forall>r. Fulfils r \<in> set es \<longrightarrow> \<not> valid_fallback r"
    and "\<forall>e \<in> set es. \<forall>err. thrown e = Some err \<longrightarrow> \<not> nullish err"
  shows "null_bound (run_from s es)"
  using assms
proof (induction es arbitrary: s)
  case Nil
  then show ?case by (simp add: run_from_Nil)
next
  case (Cons e es)
  have "null_bound (handle e s)"
    using Cons.prems by (intro handle_null_bound) auto
  then show ?case
    using Cons.prems by (simp add: run_from_Cons Cons.IH)
qed

lemma timer_resolve: "timer (resolve v s) = timer s"
  by (simp add: resolve_def)

lemma timer_reject: "timer (reject v s) = timer s"
  by (simp add: reject_def)

lemma loaded_resolve: "loaded (resolve v s) = loaded s"
  by (simp add: resolve_def)

lemma loaded_reject: "loaded (reject v s) = loaded s"
  by (simp add: reject_def)

lemma loaded_handle: "loaded (handle e s) = (loaded s \<or> (\<exists>l. e = Loaded l))"
proof (cases e)
  case (Emit k v)
  then show ?thesis
    by (simp add: setData_override_def Let_def loaded_resolve split: sum.splits)
next
  case (Loaded l)
  then show ?thesis by (simp add: Let_def)
next
  case (Fulfils r)
  then show ?thesis
    by (simp add: on_fulfilled_def then_callback_def loaded_resolve loaded_reject split: sum.splits)
next
  case (Rejects err)
  then show ?thesis by (simp add: loaded_reject)
next
  case TimerFires
  then show ?thesis by (simp add: loaded_resolve split: option.splits)
qed simp_all

lemma timer_handle:
  "e \<noteq> TimerFires \<Longrightarrow>
   timer (handle e s)
     = (if (\<exists>l. e = Loaded l) \<and> \<not> loaded s then Some safety_timeout_ms else timer s)"
proof (cases e)
  case (Emit k v)
  then show ?thesis
    by (simp add: setData_override_def Let_def timer_resolve split: sum.splits)
next
  case (Loaded l)
  then show ?thesis by (simp add: Let_def)
next
  case (Fulfils r)
  then show ?thesis
    by (simp add: on_fulfilled_def then_callback_def timer_resolve timer_reject split: sum.splits)
next
  case (Rejects err)
  then show ?thesis by (simp add: timer_reject)
qed simp_all

lemma timer_run_from:
  "TimerFires \<notin> set es \<Longrightarrow>
   timer (run_from s es)
     = (if (\<exists>l. Loaded l \<in> set es) \<and> \<not> loaded s then Some safety_timeout_ms else timer s)"
proof (induction es arbitrary: s)
  case Nil
  then show ?case by (simp add: run_from_Nil)
next
  case (Cons e es)
  from Cons.prems have e: "e \<noteq> TimerFires" and es: "TimerFires \<notin> set es"
    by auto
  show ?case
    unfolding run_from_Cons Cons.IH [OF es] timer_handle [OF e] loaded_handle
    by auto
qed

lemma timer_armed:
  "Loaded l \<in> set es \<Longrightarrow> TimerFires \<notin> set es \<Longrightarrow> timer (capture es) = Some safety_timeout_ms"
  by (auto simp add: capture_def timer_run_from start_def)

lemma timer_handle_not_loaded:
  "\<forall>l. e \<noteq> Loaded l \<Longrightarrow> timer s = None \<Longrightarrow> timer (handle e s) = None"
  by (cases "e = TimerFires") (simp_all add: timer_handle)

lemma timer_not_armed:
  "\<forall>l. Loaded l \<notin> set es \<Longrightarrow> timer s = None \<Longrightarrow> timer (run_from s es) = None"
proof (induction es arbitrary: s)
  case Nil
  then show ?case by (simp add: run_from_Nil)
next
  case (Cons e es)
  from Cons.prems have "timer (handle e s) = None"
    by (intro timer_handle_not_loaded) auto
  with Cons.prems show ?case
    by (simp add: run_from_Cons Cons.IH)
qed

lemma null_bound_result:
  "null_bound s \<Longrightarrow> promise s \<noteq> Pending \<Longrightarrow> result_of s = Some JNull"
  by (cases "promise s") (simp_all add: null_bound_def result_of_Fulfilled result_of_Rejected)

text \<open>
  Claim C4, as amended. The safety timer is armed, with a delay of 30 minutes, when
  \<^verbatim>\<open>require\<close> has finished, whatever it returned or threw, and not before. If the
  events up to the moment it elapses hold no \<^verbatim>\<open>setData("result", ...)\<close> call and no
  completion of the connector with truthy \<^verbatim>\<open>data\<close>, whatever its \<^verbatim>\<open>success\<close>
  property, and the errors the connector raised are values other than \<^verbatim>\<open>null\<close> and
  \<^verbatim>\<open>undefined\<close>, then the outcome is \<^verbatim>\<open>null\<close>, whatever follows.
\<close>

theorem safety_timeout_gives_null:
  assumes "Loaded l \<in> set pre"
    and "TimerFires \<notin> set pre"
    and "first_result pre = None"
    and "\<forall>r. Fulfils r \<in> set pre \<longrightarrow> \<not> valid_fallback r"
    and "proper_errors pre"
  shows "result_of (capture (pre @ TimerFires # post)) = Some JNull
         \<and> timer (capture pre) = Some (30 * 60 * 1000)
         \<and> (\<forall>before. (\<forall>l. Loaded l \<notin> set before) \<longrightarrow> timer (capture before) = None)"
proof (intro conjI allI impI)
  have armed: "timer (capture pre) = Some safety_timeout_ms"
    using assms(1,2) by (rule timer_armed)
  then show "timer (capture pre) = Some (30 * 60 * 1000)"
    by (simp add: safety_timeout_ms_def)
  have "null_bound start"
    by (simp add: null_bound_def start_def)
  then have nb: "null_bound (capture pre)"
    unfolding capture_def using assms(3-5)
    by (intro run_from_null_bound) (auto dest: first_result_None proper_errors_thrown)
  let ?s = "handle TimerFires (capture pre)"
  from armed have "promise ?s = (if promise (capture pre) = Pending then Fulfilled JNull
      else promise (capture pre))"
    by (simp add: promise_resolve)
  with nb have "null_bound ?s" and "promise ?s \<noteq> Pending"
    by (auto simp add: null_bound_def)
  then have "null_bound (run_from ?s post)" and "promise (run_from ?s post) \<noteq> Pending"
    by (simp_all add: run_from_settled null_bound_def)
  then show "result_of (capture (pre @ TimerFires # post)) = Some JNull"
    by (simp add: capture_split null_bound_result)
next
  fix before
  assume "\<forall>l. Loaded l \<notin> set before"
  then show "timer (capture before) = None"
    unfolding capture_def by (rule timer_not_armed) (simp add: start_def)
qed

theorem safety_timeout_gives_null_witness:
  "Loaded Returned_promise \<in> set [Emit ''progress'' (JNum 3), Loaded Returned_promise,
       Fulfils (JObj [(''success'', JBool False)])]
   \<and> TimerFires \<notin> set [Emit ''progress'' (JNum 3), Loaded Returned_promise,
       Fulfils (JObj [(''success'', JBool False)])]
   \<and> first_result [Emit ''progress'' (JNum 3), Loaded Returned_promise,
       Fulfils (JObj [(''success'', JBool False)])] = None
   \<and> \<not> valid_fallback (JObj [(''success'', JBool False)])
   \<and> proper_errors [Emit ''progress'' (JNum 3), Loaded Returned_promise,
       Fulfils (JObj [(''success'', JBool False)])]
   \<and> result_of (capture ([Emit ''progress'' (JNum 3), Loaded Returned_promise,
       Fulfils (JObj [(''success'', JBool False)])] @ TimerFires # [Emit ''result'' (JNum 1)]))
      = Some JNull
   \<and> timer (capture [Emit ''progress'' (JNum 3), Loaded Returned_promise,
       Fulfils (JObj [(''success'', JBool False)])]) = Some 1800000
   \<and> timer (capture [Emit ''progress'' (JNum 3)]) = None
   \<and> Loaded (Returned (JObj [])) \<in> set [Loaded (Returned (JObj []))]
   \<and> TimerFires \<notin> set [Loaded (Returned (JObj []))]
   \<and> first_result [Loaded (Returned (JObj []))] = None
   \<and> proper_errors [Loaded (Returned (JObj []))]
   \<and> result_of (capture ([Loaded (Returned (JObj []))] @ TimerFires # [])) = Some JNull
   \<and> timer (capture [Loaded (Returned (JObj []))]) = Some 1800000"
proof -
  let ?pre = "[Emit ''progress'' (JNum 3), Loaded Returned_promise,
       Fulfils (JObj [(''success'', JBool False)])]"
  let ?pre' = "[Loaded (Returned (JObj []))]"
  have l: "Loaded Returned_promise \<in> set ?pre" and l': "Loaded (Returned (JObj [])) \<in> set ?pre'"
    by simp_all
  have t: "TimerFires \<notin> set ?pre" and t': "TimerFires \<notin> set ?pre'"
    by simp_all
  have f: "first_result ?pre = None" and f': "first_result ?pre' = None"
    by simp_all
  have n: "\<not> valid_fallback (JObj [(''success'', JBool False)])"
    by (simp add: valid_fallback_def member_def)
  then have v: "\<forall>r. Fulfils r \<in> set ?pre \<longrightarrow> \<not> valid_fallback r"
    by simp
  have v': "\<forall>r. Fulfils r \<in> set ?pre' \<longrightarrow> \<not> valid_fallback r"
    by simp
  have e: "proper_errors ?pre" and e': "proper_errors ?pre'"
    by (simp_all add: proper_errors_def)
  have b: "\<forall>l. Loaded l \<notin> set [Emit ''progress'' (JNum 3)]"
    by simp
  from safety_timeout_gives_null [OF l t f v e, of "[Emit ''result'' (JNum 1)]"]
  have 1: "result_of (capture (?pre @ TimerFires # [Emit ''result'' (JNum 1)])) = Some JNull"
    and 2: "timer (capture ?pre) = Some (30 * 60 * 1000)"
    and 3: "\<forall>before. (\<forall>l. Loaded l \<notin> set before) \<longrightarrow> timer (capture before) = None"
    by blast+
  from 3 b have 4: "timer (capture [Emit ''progress'' (JNum 3)]) = None"
    by blast
  from 2 have 5: "timer (capture ?pre) = Some 1800000"
    by simp
  from safety_timeout_gives_null [OF l' t' f' v' e', of "[]"]
  have 6: "result_of (capture (?pre' @ TimerFires # [])) = Some JNull"
    and 7: "timer (capture ?pre') = Some (30 * 60 * 1000)"
    by blast+
  from 7 have 8: "timer (capture ?pre') = Some 1800000"
    by simp
  from l t f n e 1 4 5 l' t' f' e' 6 8 show ?thesis
    by blast
qed

text \<open>
  Claim C4 as stated gives \<^verbatim>\<open>null\<close> when no valid fallback, a completion of the shape
  \<^verbatim>\<open>{ success, data }\<close>, has arrived before the deadline. The completion value
  \<^verbatim>\<open>{ data: 7 }\<close> is not of that shape, no \<^verbatim>\<open>setData("result", ...)\<close> is called, and
  the outcome when the timer elapses is 7: line 198 has resolved the promise.
\<close>

theorem timeout_after_shapeless_fallback:
  "first_result [Loaded Returned_promise, Fulfils (JObj [(''data'', JNum 7)]), TimerFires] = None
   \<and> \<not> success_data_shaped (JObj [(''data'', JNum 7)])
   \<and> result_of (capture [Loaded Returned_promise, Fulfils (JObj [(''data'', JNum 7)]), TimerFires])
       = Some (JNum 7)"
  by (simp add: run_simps)

section \<open>Properties of the main routine\<close>

lemma console_resolve: "console (resolve v s) = console s"
  by (simp add: resolve_def)

lemma console_reject: "console (reject v s) = console s"
  by (simp add: reject_def)

lemma console_handle: "console (handle e s) = console s @ logs e"
proof (cases e)
  case (Emit k v)
  then show ?thesis
    by (simp add: setData_override_def Let_def console_resolve split: sum.splits)
next
  case (Loaded l)
  then show ?thesis
    by (cases l) (simp_all add: Let_def console_reject)
next
  case (Fulfils r)
  then show ?thesis
    by (simp add: on_fulfilled_def then_callback_def console_resolve console_reject
        split: sum.splits)
next
  case (Rejects err)
  then show ?thesis by (simp add: console_reject)
next
  case TimerFires
  then show ?thesis by (simp add: console_resolve split: option.splits)
qed simp_all

lemma console_run_from: "console (run_from s es) = console s @ concat (map logs es)"
  by (induction es arbitrary: s) (simp_all add: run_from_Nil run_from_Cons console_handle)

lemma console_capture: "console (capture es) = concat (map logs es)"
  by (simp add: capture_def console_run_from start_def)

lemma console_capture_append: "console (capture (xs @ ys)) = console (capture xs) @ console (capture ys)"
  by (simp add: console_capture)

lemma console_run_from_capture: "console (run_from s es) = console s @ console (capture es)"
  by (simp add: console_run_from console_capture)

lemma execute_from_Nil: "execute_from cwd p [] = p"
  by (simp add: execute_from_def)

lemma execute_from_Cons: "execute_from cwd p (e # es) = execute_from cwd (advance cwd e p) es"
  by (simp add: execute_from_def)

lemma execute_from_append:
  "execute_from cwd p (xs @ ys) = execute_from cwd (execute_from cwd p xs) ys"
  by (simp add: execute_from_def)

lemma execute_append: "execute cwd (xs @ ys) = execute_from cwd (execute cwd xs) ys"
  by (simp add: execute_def execute_from_append)

lemma advance_over: "over (stage p) \<Longrightarrow> advance cwd e p = p"
  by (simp add: advance_def)

lemma execute_from_over: "over (stage p) \<Longrightarrow> execute_from cwd p es = p"
  by (induction es) (simp_all add: execute_from_Nil execute_from_Cons advance_over)

lemma outside_eq:
  "outside e p = p\<lparr>co := handle e (co p), console_out := console_out p @ logs e\<rparr>"
  by (simp add: outside_def Let_def console_handle)

lemma advance_inert:
  assumes "\<not> over (stage p)"
    and "e = Resumes \<Longrightarrow> stage p \<noteq> Waiting \<or> promise (co p) = Pending"
    and "e = Closes \<Longrightarrow> \<forall>r. stage p \<noteq> Closing r"
  shows "advance cwd e p = p\<lparr>co := handle e (co p), console_out := console_out p @ logs e\<rparr>"
proof (cases e)
  case Resumes
  with assms(2) have "resume p = p"
    by (auto simp add: resume_def awaited_def split: stage.splits)
  with Resumes assms(1) show ?thesis
    by (simp add: advance_def)
next
  case Closes
  with assms(3) have "closes cwd p = p"
    by (auto simp add: closes_def split: stage.splits)
  with Closes assms(1) show ?thesis
    by (simp add: advance_def)
qed (use assms(1) in \<open>simp_all add: advance_def outside_eq\<close>)

lemma execute_from_inert:
  assumes "\<not> over (stage p)"
    and "Resumes \<in> set es \<Longrightarrow> stage p \<noteq> Waiting"
    and "Closes \<in> set es \<Longrightarrow> \<forall>r. stage p \<noteq> Closing r"
  shows "execute_from cwd p es
    = p\<lparr>co := run_from (co p) es, console_out := console_out p @ console (capture es)\<rparr>"
  using assms
proof (induction es arbitrary: p)
  case Nil
  then show ?case
    by (simp add: execute_from_Nil run_from_Nil console_capture)
next
  case (Cons e es)
  let ?q = "p\<lparr>co := handle e (co p), console_out := console_out p @ logs e\<rparr>"
  have a: "advance cwd e p = ?q"
    using Cons.prems by (intro advance_inert) auto
  have "execute_from cwd ?q es
      = ?q\<lparr>co := run_from (co ?q) es, console_out := console_out ?q @ console (capture es)\<rparr>"
    using Cons.prems by (intro Cons.IH) auto
  then show ?case
    by (simp add: execute_from_Cons a run_from_Cons console_capture)
qed

lemma execute_waiting:
  assumes "promise (capture pre) = Pending" and "Resumes \<notin> set rest"
  shows "execute cwd (pre @ rest)
    = boot\<lparr>co := capture (pre @ rest), console_out := console (capture (pre @ rest))\<rparr>"
proof -
  have pre: "execute cwd pre = boot\<lparr>co := capture pre, console_out := console (capture pre)\<rparr>"
    using assms(1)
  proof (induction pre rule: rev_induct)
    case Nil
    then show ?case
      by (simp add: execute_def execute_from_Nil capture_def run_from_Nil boot_def start_def)
  next
    case (snoc e es)
    from snoc.prems have pend: "promise (capture es) = Pending"
      using handle_settled [of "capture es" e] by (auto simp add: capture_snoc)
    let ?p = "boot\<lparr>co := capture es, console_out := console (capture es)\<rparr>"
    have "advance cwd e ?p
        = ?p\<lparr>co := handle e (co ?p), console_out := console_out ?p @ logs e\<rparr>"
      using pend by (intro advance_inert) (simp_all add: boot_def)
    then show ?case
      by (simp add: execute_append snoc.IH [OF pend] execute_from_Cons execute_from_Nil
          capture_snoc console_handle)
  qed
  let ?p = "boot\<lparr>co := capture pre, console_out := console (capture pre)\<rparr>"
  have "execute_from cwd ?p rest
      = ?p\<lparr>co := run_from (co ?p) rest, console_out := console_out ?p @ console (capture rest)\<rparr>"
    using assms(2) by (intro execute_from_inert) (simp_all add: boot_def)
  then show ?thesis
    by (simp add: execute_append pre capture_append console_run_from_capture)
qed

lemma advance_Resumes:
  "stage p = Waiting \<Longrightarrow> awaited (co p) = Some (Inr (result, caught)) \<Longrightarrow>
   advance cwd Resumes p = p\<lparr>stage := Closing result, console_out := console_out p @ caught\<rparr>"
  by (simp add: advance_def resume_def)

lemma advance_Closes:
  "stage p = Closing result \<Longrightarrow>
   advance cwd Closes p
     = p\<lparr>stage := Ended (ending (finish cwd result (console_out p))),
          console_out := printed (finish cwd result (console_out p)),
          context_is_closed := context_closed (finish cwd result (console_out p)),
          files_written := files (finish cwd result (console_out p))\<rparr>"
  by (simp add: advance_def closes_def Let_def)

text \<open>
  A run in which the main routine resumes with \<open>result\<close> after the events \<open>before\<close>,
  the events \<open>during\<close> arrive while the context is closing, and the events \<open>after\<close>
  follow.
\<close>

lemma main_run_from_waiting:
  assumes "execute cwd before
      = boot\<lparr>co := capture before, console_out := console (capture before)\<rparr>"
    and "awaited (capture before) = Some (Inr (result, caught))"
    and "Closes \<notin> set during"
  shows "main cwd (before @ Resumes # during @ Closes # after)
    = (let r = finish cwd result (console (capture before) @ caught @ console (capture during))
       in Some (if ending r = Returns then r\<lparr>printed := printed r @ console (capture after)\<rparr>
                else r))"
proof -
  let ?w = "boot\<lparr>co := capture before, console_out := console (capture before)\<rparr>"
  let ?c = "?w\<lparr>stage := Closing result, console_out := console_out ?w @ caught\<rparr>"
  let ?d = "?c\<lparr>co := run_from (co ?c) during,
               console_out := console_out ?c @ console (capture during)\<rparr>"
  let ?r = "finish cwd result (console (capture before) @ caught @ console (capture during))"
  let ?f = "?d\<lparr>stage := Ended (ending ?r), console_out := printed ?r,
               context_is_closed := context_closed ?r, files_written := files ?r\<rparr>"
  have c: "advance cwd Resumes ?w = ?c"
    using assms(2) by (intro advance_Resumes) (simp_all add: boot_def)
  have d: "execute_from cwd ?c during = ?d"
    using assms(3) by (intro execute_from_inert) simp_all
  have f: "advance cwd Closes ?d = ?f"
    using advance_Closes [of ?d result cwd] by simp
  have s0: "execute cwd (before @ Resumes # during @ Closes # after)
      = execute_from cwd (execute cwd before) (Resumes # during @ Closes # after)"
    by (rule execute_append)
  have s1: "execute_from cwd (execute cwd before) (Resumes # during @ Closes # after)
      = execute_from cwd ?c (during @ Closes # after)"
    by (simp only: assms(1) execute_from_Cons c)
  have s2: "execute_from cwd ?c (during @ Closes # after) = execute_from cwd ?d (Closes # after)"
    by (simp only: execute_from_append d)
  have s3: "execute_from cwd ?d (Closes # after) = execute_from cwd ?f after"
    by (simp only: execute_from_Cons f)
  have run: "execute cwd (before @ Resumes # during @ Closes # after)
      = execute_from cwd ?f after"
    by (simp only: s0 s1 s2 s3)
  show ?thesis
  proof (cases "ending ?r = Returns")
    case True
    then have "execute_from cwd ?f after
        = ?f\<lparr>co := run_from (co ?f) after, console_out := console_out ?f @ console (capture after)\<rparr>"
      by (intro execute_from_inert) simp_all
    with True show ?thesis
      unfolding main_def run by (simp add: Let_def)
  next
    case False
    then have "over (stage ?f)"
      by (cases "ending ?r") simp_all
    then have "execute_from cwd ?f after = ?f"
      by (rule execute_from_over)
    with False show ?thesis
      unfolding main_def run by (simp add: Let_def)
  qed
qed

lemma main_run:
  assumes "promise (capture pre) = Pending" and "Resumes \<notin> set rest"
    and "awaited (capture (pre @ rest)) = Some (Inr (result, caught))"
    and "Closes \<notin> set during"
  shows "main cwd ((pre @ rest) @ Resumes # during @ Closes # after)
    = (let r = finish cwd result (console (capture (pre @ rest)) @ caught @ console (capture during))
       in Some (if ending r = Returns then r\<lparr>printed := printed r @ console (capture after)\<rparr>
                else r))"
  using execute_waiting [OF assms(1,2)] assms(3,4) by (rule main_run_from_waiting)

lemmas main_simps = main_def execute_def execute_from_def advance_def resume_def closes_def
  outside_def boot_def finish_def

lemma finish_falsy:
  "\<not> truthy result \<Longrightarrow>
   finish cwd result out =
     \<lparr>printed = out @ [Error no_result_message []], context_closed = True,
      files = [], ending = Exit_code 1\<rparr>"
  by (simp add: finish_def)

lemma handle_raises:
  "promise s = Pending \<Longrightarrow> raises_in s e err \<Longrightarrow> promise (handle e s) = Rejected err"
  by (cases "(s, e, err)" rule: raises_in.cases) (simp_all add: promise_reject Let_def)

lemma raises_in_not_Resumes: "raises_in s e err \<Longrightarrow> e \<noteq> Resumes"
  by (cases "(s, e, err)" rule: raises_in.cases) simp_all

text \<open>
  Claim C8 fails on the code when the error is \<^verbatim>\<open>undefined\<close> or \<^verbatim>\<open>null\<close>. The
  connector's promise rejects with \<^verbatim>\<open>undefined\<close>, or \<^verbatim>\<open>require\<close> throws \<^verbatim>\<open>null\<close>,
  before any result is emitted: the error reaches the \<^verbatim>\<open>catch\<close> block of line 208,
  where reading \<^verbatim>\<open>err.message\<close> at line 209 throws a TypeError. The variable
  \<^verbatim>\<open>result\<close> is not set to \<^verbatim>\<open>null\<close>, nothing is printed, \<^verbatim>\<open>context.close()\<close> is not
  called, and the main routine ends with the TypeError unhandled.
\<close>

theorem nullish_error_escapes_catch_block:
  "result_of (capture [Loaded Returned_promise, Rejects JUndefined]) = None
   \<and> main ''/work'' [Loaded Returned_promise, Rejects JUndefined, Resumes, Closes]
       = Some \<lparr>printed = [], context_closed = False, files = [],
                ending = Unhandled (type_error ''Cannot read properties of undefined'')\<rparr>
   \<and> result_of (capture [Loaded (Threw JNull)]) = None
   \<and> main ''/work'' [Loaded (Threw JNull), Resumes, Closes]
       = Some \<lparr>printed = [], context_closed = False, files = [],
                ending = Unhandled (type_error ''Cannot read properties of null'')\<rparr>"
  by (simp add: run_simps main_simps)

text \<open>
  For an error that is a value other than \<^verbatim>\<open>null\<close> and \<^verbatim>\<open>undefined\<close> the
  \<^verbatim>\<open>catch\<close> block does its work. If such an error reaches the promise while it is
  pending (\<^verbatim>\<open>require\<close> throws, or the promise it returned rejects), the outcome is
  \<^verbatim>\<open>null\<close>; when the main routine resumes it prints the failure with the error's
  message, after what was printed before and ahead of what is printed while the context
  closes; then it prints the no-result error and ends the process with exit code 1,
  the context closed and no file written.
\<close>

theorem proper_error_gives_null_outcome:
  assumes "promise (capture pre) = Pending"
    and "raises_in (capture pre) e err"
    and "\<not> nullish err"
    and "Resumes \<notin> set mid"
    and "Closes \<notin> set during"
  shows "result_of (capture (pre @ e # mid @ Resumes # during @ Closes # after)) = Some JNull
         \<and> main cwd (pre @ e # mid @ Resumes # during @ Closes # after) =
             Some \<lparr>printed = console (capture (pre @ e # mid))
                      @ [Error (CHR 0x0A # ''[harness] Connector threw an error:'')
                           [member err ''message'']]
                      @ console (capture during)
                      @ [Error no_result_message []],
                    context_closed = True, files = [], ending = Exit_code 1\<rparr>"
proof -
  have h: "promise (handle e (capture pre)) = Rejected err"
    using assms(1,2) by (rule handle_raises)
  then have r: "promise (capture (pre @ e # post)) = Rejected err" for post
    by (simp add: capture_split run_from_settled)
  from r assms(3) have 1: "result_of (capture (pre @ e # mid @ Resumes # during @ Closes # after))
      = Some JNull"
    by (rule result_of_Rejected)
  have a: "awaited (capture (pre @ e # mid))
      = Some (Inr (JNull, [Error (CHR 0x0A # ''[harness] Connector threw an error:'')
                             [member err ''message'']]))"
    using r [of mid] assms(3) by (simp add: awaited_def catch_block_not_nullish)
  from assms(2,4) have n: "Resumes \<notin> set (e # mid)"
    by (auto dest: raises_in_not_Resumes)
  from main_run [OF assms(1) n a assms(5), where cwd = cwd and after = after]
  have "main cwd (pre @ e # mid @ Resumes # during @ Closes # after) =
             Some \<lparr>printed = console (capture (pre @ e # mid))
                      @ [Error (CHR 0x0A # ''[harness] Connector threw an error:'')
                           [member err ''message'']]
                      @ console (capture during)
                      @ [Error no_result_message []],
                    context_closed = True, files = [], ending = Exit_code 1\<rparr>"
    by (simp add: finish_falsy Let_def)
  with 1 show ?thesis
    by simp
qed

theorem proper_error_gives_null_outcome_witness:
  "promise (capture [Loaded Returned_promise, Emit ''progress'' (JStr ''starting'')]) = Pending
   \<and> raises_in (capture [Loaded Returned_promise, Emit ''progress'' (JStr ''starting'')])
        (Rejects (JObj [(''message'', JStr ''boom'')])) (JObj [(''message'', JStr ''boom'')])
   \<and> \<not> nullish (JObj [(''message'', JStr ''boom'')])
   \<and> Resumes \<notin> set [TimerFires]
   \<and> Closes \<notin> set [Emit ''status'' (JStr ''late'')]
   \<and> main ''/work'' ([Loaded Returned_promise, Emit ''progress'' (JStr ''starting'')]
        @ Rejects (JObj [(''message'', JStr ''boom'')]) # [TimerFires]
        @ Resumes # [Emit ''status'' (JStr ''late'')] @ Closes # [Emit ''status'' (JStr ''gone'')]) =
       Some \<lparr>printed = [Log ''[setData] progress: starting'',
                         Error (CHR 0x0A # ''[harness] Connector threw an error:'') [JStr ''boom''],
                         Log ''[setData] status: late'',
                         Error no_result_message []],
              context_closed = True, files = [], ending = Exit_code 1\<rparr>"
proof -
  let ?pre = "[Loaded Returned_promise, Emit ''progress'' (JStr ''starting'')]"
  let ?err = "JObj [(''message'', JStr ''boom'')]"
  have p: "promise (capture ?pre) = Pending"
    by (simp add: run_simps)
  have r: "raises_in (capture ?pre) (Rejects ?err) ?err"
    by (simp add: run_simps)
  have n: "\<not> nullish ?err"
    by simp
  have m: "Resumes \<notin> set [TimerFires]" and d: "Closes \<notin> set [Emit ''status'' (JStr ''late'')]"
    by simp_all
  have c: "console (capture (?pre @ Rejects ?err # [TimerFires]))
      = [Log ''[setData] progress: starting'']"
    by (simp add: run_simps)
  have c': "console (capture [Emit ''status'' (JStr ''late'')]) = [Log ''[setData] status: late'']"
    by (simp add: run_simps)
  have msg: "member ?err ''message'' = JStr ''boom''"
    by (simp add: member_def)
  from proper_error_gives_null_outcome [OF p r n m d, where cwd = "''/work''"
      and after = "[Emit ''status'' (JStr ''gone'')]"]
  have "main ''/work'' (?pre @ Rejects ?err # [TimerFires]
        @ Resumes # [Emit ''status'' (JStr ''late'')] @ Closes # [Emit ''status'' (JStr ''gone'')]) =
       Some \<lparr>printed = [Log ''[setData] progress: starting'',
                         Error (CHR 0x0A # ''[harness] Connector threw an error:'') [JStr ''boom''],
                         Log ''[setData] status: late'',
                         Error no_result_message []],
              context_closed = True, files = [], ending = Exit_code 1\<rparr>"
    unfolding c c' msg by simp
  with p r n m d show ?thesis
    by blast
qed

lemma outputPath_examples:
  "outputPath ''/'' = ''/youtube-export.json''"
  "outputPath ''/home/user/connectors'' = ''/home/user/connectors/youtube-export.json''"
  by (simp_all add: outputPath_def path_join_def normalize_def normalizeString_def segment_def)

lemma JSON_stringify_truthy:
  "truthy v \<Longrightarrow> \<not> has_bigint v \<Longrightarrow> JSON_stringify gap v = Inr (Some (ser gap [] v))"
  by (auto simp add: JSON_stringify_def)

lemma JSON_stringify_bigint:
  "has_bigint v \<Longrightarrow> JSON_stringify gap v = Inl (type_error ''Do not know how to serialize a BigInt'')"
  by (simp add: JSON_stringify_def)

lemma finish_written:
  assumes "truthy result" and "summary_exception result = None" and "\<not> has_bigint result"
  shows "finish cwd result out =
     \<lparr>printed = out @ summary_printed result
        @ [Log (''[harness] Output written to: '' @ outputPath cwd)],
      context_closed = True, files = [(outputPath cwd, ser ''  '' [] result)],
      ending = Returns\<rparr>"
  using assms
  by (auto simp add: finish_def summary_exception_def summary_printed_def JSON_stringify_truthy
      Let_def split: prod.splits)

lemma finish_not_written:
  assumes "truthy result" and "summary_exception result \<noteq> None \<or> has_bigint result"
  shows "\<exists>e. finish cwd result out =
     \<lparr>printed = out @ summary_printed result, context_closed = True, files = [],
      ending = Unhandled e\<rparr>"
proof (cases "summary_exception result")
  case (Some e)
  with assms(1) show ?thesis
    by (auto simp add: finish_def summary_exception_def summary_printed_def Let_def
        split: prod.splits)
next
  case None
  with assms(2) have "has_bigint result"
    by simp
  with assms(1) None show ?thesis
    by (auto simp add: finish_def summary_exception_def summary_printed_def JSON_stringify_bigint
        Let_def split: prod.splits)
qed

text \<open>
  Claim C9, as amended. When the main routine, resumed with the outcome \<open>result\<close>, goes
  on after \<^verbatim>\<open>context.close()\<close>, the context is closed and: exactly when \<open>result\<close> is
  truthy and neither the summary block nor JSON.stringify throws, the serialisation of
  \<open>result\<close> with indentation 2 is the one file written, at the output path, and the
  routine returns without calling \<^verbatim>\<open>process.exit\<close>, its output being followed by
  that of later events; when \<open>result\<close> is falsy (\<^verbatim>\<open>null\<close>, but also \<^verbatim>\<open>0\<close>, \<^verbatim>\<open>""\<close>,
  \<^verbatim>\<open>false\<close>, \<^verbatim>\<open>NaN\<close>, \<^verbatim>\<open>undefined\<close>), no file is written and the process exits with
  code 1; in the case that remains no file is written and the routine does not
  return.
\<close>

theorem output_and_exit_code:
  assumes "Resumes \<notin> set before"
    and "awaited (capture before) = Some (Inr (result, caught))"
    and "Closes \<notin> set during"
  shows "\<exists>rep. main cwd (before @ Resumes # during @ Closes # after) = Some rep
           \<and> context_closed rep
           \<and> ((files rep = [(outputPath cwd, ser ''  '' [] result)] \<and> ending rep = Returns)
                = (truthy result \<and> summary_exception result = None \<and> \<not> has_bigint result))
           \<and> (\<not> truthy result \<longrightarrow> files rep = [] \<and> ending rep = Exit_code 1)
           \<and> (\<not> (truthy result \<and> summary_exception result = None \<and> \<not> has_bigint result)
                 \<longrightarrow> files rep = [] \<and> ending rep \<noteq> Returns)
           \<and> (truthy result \<and> summary_exception result = None \<and> \<not> has_bigint result
                 \<longrightarrow> printed rep = console (capture before) @ caught @ console (capture during)
                       @ summary_printed result
                       @ [Log (''[harness] Output written to: '' @ outputPath cwd)]
                       @ console (capture after))"
proof -
  let ?out = "console (capture before) @ caught @ console (capture during)"
  let ?r = "finish cwd result ?out"
  have "promise (capture []) = Pending"
    by (simp add: capture_def run_from_Nil start_def)
  from main_run [OF this, of before result caught during cwd after] assms
  have m: "main cwd (before @ Resumes # during @ Closes # after)
      = Some (if ending ?r = Returns then ?r\<lparr>printed := printed ?r @ console (capture after)\<rparr>
              else ?r)"
    by (simp add: Let_def)
  consider (falsy) "\<not> truthy result"
    | (throws) "truthy result" "summary_exception result \<noteq> None \<or> has_bigint result"
    | (good) "truthy result" "summary_exception result = None" "\<not> has_bigint result"
    by blast
  then show ?thesis
  proof cases
    case falsy
    then show ?thesis
      unfolding m by (simp add: finish_falsy)
  next
    case throws
    from finish_not_written [OF throws, of cwd ?out] obtain e where
      "?r = \<lparr>printed = ?out @ summary_printed result, context_closed = True, files = [],
             ending = Unhandled e\<rparr>" ..
    with throws show ?thesis
      unfolding m by auto
  next
    case good
    then show ?thesis
      unfolding m by (simp add: finish_written)
  qed
qed

lemmas summary_simps = summary_exception_def summary_printed_def summary_lines_def
  labelled_def template_def or_else_def coalesce_def member_def

lemmas path_simps = outputPath_def path_join_def normalize_def normalizeString_def segment_def

theorem output_and_exit_code_witness:
  "Resumes \<notin> set [Loaded Returned_promise, Emit ''result'' (JObj [(''n'', JNum 1)])]
   \<and> awaited (capture [Loaded Returned_promise, Emit ''result'' (JObj [(''n'', JNum 1)])])
       = Some (Inr (JObj [(''n'', JNum 1)], []))
   \<and> Closes \<notin> set [Emit ''status'' (JStr ''late'')]
   \<and> truthy (JObj [(''n'', JNum 1)])
   \<and> summary_exception (JObj [(''n'', JNum 1)]) = None
   \<and> \<not> has_bigint (JObj [(''n'', JNum 1)])
   \<and> map_option files (main ''/work'' ([Loaded Returned_promise, Emit ''result'' (JObj [(''n'', JNum 1)])]
         @ Resumes # [Emit ''status'' (JStr ''late'')] @ Closes # [Emit ''status'' (JStr ''gone'')]))
       = Some [(''/work/youtube-export.json'',
          ''{'' @ [CHR 0x0A] @ ''  '' @ [CHR 0x22] @ ''n'' @ [CHR 0x22] @ '': 1'' @ [CHR 0x0A] @ ''}'')]
   \<and> map_option ending (main ''/work'' ([Loaded Returned_promise, Emit ''result'' (JObj [(''n'', JNum 1)])]
         @ Resumes # [Emit ''status'' (JStr ''late'')] @ Closes # [Emit ''status'' (JStr ''gone'')]))
       = Some Returns
   \<and> awaited (capture [Loaded Returned_promise,
         Fulfils (JObj [(''data'', JObj [(''exportSummary'',
           JObj [(''profile'', JObj [(''toString'', JNum 1)])])])])])
       = Some (Inr (JObj [(''exportSummary'', JObj [(''profile'', JObj [(''toString'', JNum 1)])])], []))
   \<and> summary_exception (JObj [(''exportSummary'', JObj [(''profile'', JObj [(''toString'', JNum 1)])])])
       = Some (type_error ''Cannot convert object to primitive value'')
   \<and> map_option files (main ''/work'' ([Loaded Returned_promise,
         Fulfils (JObj [(''data'', JObj [(''exportSummary'',
           JObj [(''profile'', JObj [(''toString'', JNum 1)])])])])]
         @ Resumes # [] @ Closes # [])) = Some []"
proof -
  let ?before = "[Loaded Returned_promise, Emit ''result'' (JObj [(''n'', JNum 1)])]"
  let ?during = "[Emit ''status'' (JStr ''late'')]"
  let ?after = "[Emit ''status'' (JStr ''gone'')]"
  let ?r = "JObj [(''n'', JNum 1)]"
  let ?bad = "JObj [(''exportSummary'', JObj [(''profile'', JObj [(''toString'', JNum 1)])])]"
  let ?before' = "[Loaded Returned_promise, Fulfils (JObj [(''data'', ?bad)])]"
  have n: "Resumes \<notin> set ?before" and n': "Resumes \<notin> set ?before'"
    by simp_all
  have c: "Closes \<notin> set ?during" and c': "Closes \<notin> set ([] :: event list)"
    by simp_all
  have a: "awaited (capture ?before) = Some (Inr (?r, []))"
    by (simp add: run_simps)
  have a': "awaited (capture ?before') = Some (Inr (?bad, []))"
    by (simp add: run_simps)
  have t: "truthy ?r" "\<not> has_bigint ?r"
    by simp_all
  have s: "summary_exception ?r = None"
    by (simp add: summary_simps)
  have s': "summary_exception ?bad = Some (type_error ''Cannot convert object to primitive value'')"
    by (simp add: summary_simps)
  have x: "ser ''  '' [] ?r
      = ''{'' @ [CHR 0x0A] @ ''  '' @ [CHR 0x22] @ ''n'' @ [CHR 0x22] @ '': 1'' @ [CHR 0x0A] @ ''}''"
    by (simp add: run_simps)
  have o: "outputPath ''/work'' = ''/work/youtube-export.json''"
    by (simp add: path_simps)
  from output_and_exit_code [OF n a c, where cwd = "''/work''" and after = ?after] t s
  obtain rep where "main ''/work'' (?before @ Resumes # ?during @ Closes # ?after) = Some rep"
    and "files rep = [(outputPath ''/work'', ser ''  '' [] ?r)]"
    and "ending rep = Returns"
    by blast
  then have 1: "map_option files (main ''/work'' (?before @ Resumes # ?during @ Closes # ?after))
        = Some [(''/work/youtube-export.json'',
          ''{'' @ [CHR 0x0A] @ ''  '' @ [CHR 0x22] @ ''n'' @ [CHR 0x22] @ '': 1'' @ [CHR 0x0A] @ ''}'')]"
    and 2: "map_option ending (main ''/work'' (?before @ Resumes # ?during @ Closes # ?after))
        = Some Returns"
    unfolding o x by simp_all
  from output_and_exit_code [OF n' a' c', where cwd = "''/work''" and after = "[]"] s'
  obtain rep' where "main ''/work'' (?before' @ Resumes # [] @ Closes # []) = Some rep'"
    and "files rep' = []"
    by auto
  then have 3: "map_option files (main ''/work'' (?before' @ Resumes # [] @ Closes # [])) = Some []"
    by simp
  from n c a a' t s s' 1 2 3 show ?thesis
    by blast
qed

text \<open>
  Claim C9 as stated ties the written file and exit code 0 to a non-null outcome. The
  test of line 215 is \<^verbatim>\<open>!result\<close>: with \<^verbatim>\<open>setData("result", 0)\<close> the outcome is
  \<^verbatim>\<open>0\<close>, which is not \<^verbatim>\<open>null\<close>, and the run writes no file and exits with code 1.
\<close>

theorem zero_outcome_writes_no_file:
  "result_of (capture [Loaded Returned_promise, Emit ''result'' (JNum 0)]) = Some (JNum 0)
   \<and> JNum 0 \<noteq> JNull
   \<and> map_option files (main ''/work'' [Loaded Returned_promise, Emit ''result'' (JNum 0),
        Resumes, Closes]) = Some []
   \<and> map_option ending (main ''/work'' [Loaded Returned_promise, Emit ''result'' (JNum 0),
        Resumes, Closes]) = Some (Exit_code 1)"
  by (simp add: run_simps main_simps)

lemma truthy_object: "typeof_object v \<Longrightarrow> v \<noteq> JNull \<Longrightarrow> truthy v"
  by (cases v) simp_all

text \<open>
  Claim C10. If the connector calls \<^verbatim>\<open>setData("result", V)\<close> with a falsy \<open>V\<close> (such
  as \<^verbatim>\<open>0\<close>, \<^verbatim>\<open>""\<close> or \<^verbatim>\<open>false\<close>) while the promise is pending, the outcome is \<open>V\<close>
  and the main routine, once it has resumed and the context is closed, ends as it does
  for \<^verbatim>\<open>null\<close>: after everything \<^verbatim>\<open>page.setData\<close> has printed until then it prints
  the no-result error, writes no file and exits with code 1, whatever events follow.
\<close>

theorem falsy_outcome_is_no_result:
  assumes "promise (capture pre) = Pending" and "\<not> truthy V"
    and "Resumes \<notin> set mid" and "Closes \<notin> set during"
  shows "result_of (capture (pre @ Emit ''result'' V # mid @ Resumes # during @ Closes # after))
           = Some V
         \<and> main cwd (pre @ Emit ''result'' V # mid @ Resumes # during @ Closes # after)
             = Some (finish cwd JNull (console (capture (pre @ Emit ''result'' V # mid @ during))))
         \<and> main cwd (pre @ Emit ''result'' V # mid @ Resumes # during @ Closes # after)
             = Some \<lparr>printed = console (capture (pre @ Emit ''result'' V # mid @ during))
                        @ [Error no_result_message []],
                      context_closed = True, files = [], ending = Exit_code 1\<rparr>"
proof -
  let ?e = "Emit ''result'' V"
  from assms(2) have "\<not> (typeof_object V \<and> V \<noteq> JNull)"
    by (auto dest: truthy_object)
  then have "setData ''result'' V = Inr (''[setData] '' @ ''result'' @ '': '' @ ToString V)"
    by (rule setData_falls_through)
  with assms(1) have "promise (handle ?e (capture pre)) = Fulfilled V"
    by (simp add: promise_setData_override)
  then have f: "promise (capture (pre @ ?e # post)) = Fulfilled V" for post
    by (simp add: capture_split run_from_settled)
  have 1: "result_of (capture (pre @ ?e # mid @ Resumes # during @ Closes # after)) = Some V"
    using f by (rule result_of_Fulfilled)
  have a: "awaited (capture (pre @ ?e # mid)) = Some (Inr (V, []))"
    using f [of mid] by (simp add: awaited_def)
  from assms(3) have n: "Resumes \<notin> set (?e # mid)"
    by simp
  from main_run [OF assms(1) n a assms(4), where cwd = cwd and after = after] assms(2)
  have 2: "main cwd (pre @ ?e # mid @ Resumes # during @ Closes # after)
             = Some \<lparr>printed = console (capture (pre @ ?e # mid @ during))
                        @ [Error no_result_message []],
                      context_closed = True, files = [], ending = Exit_code 1\<rparr>"
    using console_capture_append [of "pre @ ?e # mid" during]
    by (simp add: finish_falsy Let_def)
  have "finish cwd JNull (console (capture (pre @ ?e # mid @ during)))
      = \<lparr>printed = console (capture (pre @ ?e # mid @ during)) @ [Error no_result_message []],
         context_closed = True, files = [], ending = Exit_code 1\<rparr>"
    by (simp add: finish_falsy)
  with 1 2 show ?thesis
    by simp
qed

theorem falsy_outcome_is_no_result_witness:
  "promise (capture [Loaded Returned_promise]) = Pending
   \<and> \<not> truthy (JStr [])
   \<and> Resumes \<notin> set [Emit ''status'' (JStr ''done'')]
   \<and> Closes \<notin> set [Emit ''status'' (JStr ''late'')]
   \<and> result_of (capture ([Loaded Returned_promise] @ Emit ''result'' (JStr [])
        # [Emit ''status'' (JStr ''done'')] @ Resumes # [Emit ''status'' (JStr ''late'')]
        @ Closes # [Emit ''status'' (JStr ''gone'')])) = Some (JStr [])
   \<and> main ''/work'' ([Loaded Returned_promise] @ Emit ''result'' (JStr [])
        # [Emit ''status'' (JStr ''done'')] @ Resumes # [Emit ''status'' (JStr ''late'')]
        @ Closes # [Emit ''status'' (JStr ''gone'')])
       = Some \<lparr>printed = [Log ''[setData] result: '', Log ''[setData] status: done'',
                           Log ''[setData] status: late'', Error no_result_message []],
                context_closed = True, files = [], ending = Exit_code 1\<rparr>"
proof -
  let ?pre = "[Loaded Returned_promise]"
  let ?mid = "[Emit ''status'' (JStr ''done'')]"
  let ?during = "[Emit ''status'' (JStr ''late'')]"
  let ?after = "[Emit ''status'' (JStr ''gone'')]"
  have p: "promise (capture ?pre) = Pending"
    by (simp add: run_simps)
  have n: "\<not> truthy (JStr [])"
    by simp
  have m: "Resumes \<notin> set ?mid" and d: "Closes \<notin> set ?during"
    by simp_all
  have c: "console (capture (?pre @ Emit ''result'' (JStr []) # ?mid @ ?during))
      = [Log ''[setData] result: '', Log ''[setData] status: done'', Log ''[setData] status: late'']"
    by (simp add: run_simps)
  from falsy_outcome_is_no_result [OF p n m d, where cwd = "''/work''" and after = ?after]
  have "result_of (capture (?pre @ Emit ''result'' (JStr []) # ?mid @ Resumes # ?during
        @ Closes # ?after)) = Some (JStr [])"
    and "main ''/work'' (?pre @ Emit ''result'' (JStr []) # ?mid @ Resumes # ?during
        @ Closes # ?after)
       = Some \<lparr>printed = [Log ''[setData] result: '', Log ''[setData] status: done'',
                           Log ''[setData] status: late''] @ [Error no_result_message []],
                context_closed = True, files = [], ending = Exit_code 1\<rparr>"
    unfolding c by blast+
  with p n m d show ?thesis
    by simp
qed

section \<open>Properties of the interaction gate\<close>



lemma gate_run_append: "gate_run g (xs @ ys) = gate_run (gate_run g xs) ys"
  by (simp add: gate_run_def)






















section \<open>Properties of \<^verbatim>\<open>setData\<close>\<close>

lemma JSON_stringify_object:
  "typeof_object value \<Longrightarrow> value \<noteq> JNull \<Longrightarrow> \<not> has_bigint value \<Longrightarrow>
   JSON_stringify gap value = Inr (Some (ser gap [] value))"
  by (intro JSON_stringify_truthy truthy_object)

lemma setData_object:
  assumes "typeof_object value" and "value \<noteq> JNull" and "\<not> has_bigint value"
  shows "setData key value =
     Inr (''[setData] '' @ key @ '': ''
          @ (if 200 < length (ser [] [] value) then take 200 (ser [] [] value) @ [ellipsis]
             else ser [] [] value))"
  using assms by (simp add: setData_def JSON_stringify_object Let_def)

lemma setData_raises:
  "(\<exists>e. setData key value = Inl e) = (typeof_object value \<and> has_bigint value)"
proof (cases "typeof_object value \<and> value \<noteq> JNull")
  case False
  then have "\<not> (typeof_object value \<and> has_bigint value)"
    by (cases "value") simp_all
  with False show ?thesis
    by (simp add: setData_falls_through)
next
  case True
  show ?thesis
  proof (cases "has_bigint value")
    case False
    with True show ?thesis by (simp add: setData_object)
  next
    case bigint: True
    with True show ?thesis by (simp add: setData_def JSON_stringify_bigint)
  qed
qed

text \<open>
  Claim C7, as amended. For a value that is an array or an object and holds no BigInt,
  \<^verbatim>\<open>setData\<close> logs the key and the JSON text of the value, cut after its first 200
  code units and followed by an ellipsis when it is longer: at most 201 code units of
  the value are shown. For every other value it logs the key and the whole string form
  of the value, whatever its length. It throws exactly when the value is an array or an
  object that holds a BigInt.
\<close>

theorem setData_log_line:
  "(typeof_object value \<and> value \<noteq> JNull \<and> \<not> has_bigint value \<longrightarrow>
      (\<exists>display. setData key value = Inr (''[setData] '' @ key @ '': '' @ display)
         \<and> length display \<le> 201
         \<and> take 200 display = take 200 (ser [] [] value)
         \<and> (length (ser [] [] value) \<le> 200 \<longrightarrow> display = ser [] [] value)
         \<and> (200 < length (ser [] [] value) \<longrightarrow>
              display = take 200 (ser [] [] value) @ [ellipsis])))
   \<and> (\<not> (typeof_object value \<and> value \<noteq> JNull) \<longrightarrow>
        setData key value = Inr (''[setData] '' @ key @ '': '' @ ToString value))
   \<and> ((\<exists>e. setData key value = Inl e) = (typeof_object value \<and> has_bigint value))"
proof (intro conjI impI)
  assume "typeof_object value \<and> value \<noteq> JNull \<and> \<not> has_bigint value"
  then have s: "setData key value =
     Inr (''[setData] '' @ key @ '': ''
          @ (if 200 < length (ser [] [] value) then take 200 (ser [] [] value) @ [ellipsis]
             else ser [] [] value))"
    by (intro setData_object) simp_all
  show "\<exists>display. setData key value = Inr (''[setData] '' @ key @ '': '' @ display)
         \<and> length display \<le> 201
         \<and> take 200 display = take 200 (ser [] [] value)
         \<and> (length (ser [] [] value) \<le> 200 \<longrightarrow> display = ser [] [] value)
         \<and> (200 < length (ser [] [] value) \<longrightarrow>
              display = take 200 (ser [] [] value) @ [ellipsis])"
  proof (cases "200 < length (ser [] [] value)")
    case True
    with s show ?thesis
      by (intro exI [of _ "take 200 (ser [] [] value) @ [ellipsis]"]) simp
  next
    case False
    with s show ?thesis
      by (intro exI [of _ "ser [] [] value"]) simp
  qed
next
  assume "\<not> (typeof_object value \<and> value \<noteq> JNull)"
  then show "setData key value = Inr (''[setData] '' @ key @ '': '' @ ToString value)"
    by (rule setData_falls_through)
next
  show "(\<exists>e. setData key value = Inl e) = (typeof_object value \<and> has_bigint value)"
    by (rule setData_raises)
qed

lemma quote_char_a: "quote_char (CHR ''a'') = [CHR ''a'']"
  by (simp add: quote_char_def)

lemma concat_replicate_single: "concat (replicate n [c]) = replicate n c"
  by (induction n) simp_all

lemma ser_long_array:
  "ser [] [] (JArr [JStr (replicate 250 (CHR ''a''))])
     = CHR ''['' # CHR 0x22 # replicate 250 (CHR ''a'') @ [CHR 0x22, CHR '']'']"
  by (simp add: wrap_def quote_def quote_char_a concat_replicate_single)

theorem setData_log_line_witness:
  "typeof_object (JArr [JStr (replicate 250 (CHR ''a''))])
   \<and> JArr [JStr (replicate 250 (CHR ''a''))] \<noteq> JNull
   \<and> \<not> has_bigint (JArr [JStr (replicate 250 (CHR ''a''))])
   \<and> 200 < length (ser [] [] (JArr [JStr (replicate 250 (CHR ''a''))]))
   \<and> setData ''likes'' (JArr [JStr (replicate 250 (CHR ''a''))])
       = Inr (''[setData] likes: '' @ CHR ''['' # CHR 0x22 # replicate 198 (CHR ''a'') @ [ellipsis])
   \<and> \<not> (typeof_object (JNum 12) \<and> JNum 12 \<noteq> JNull)
   \<and> setData ''count'' (JNum 12) = Inr ''[setData] count: 12''"
proof -
  let ?v = "JArr [JStr (replicate 250 (CHR ''a''))]"
  have h: "typeof_object ?v \<and> ?v \<noteq> JNull \<and> \<not> has_bigint ?v"
    by simp
  have l: "200 < length (ser [] [] ?v)"
    by (subst ser_long_array) simp
  have t: "take 200 (ser [] [] ?v) = CHR ''['' # CHR 0x22 # replicate 198 (CHR ''a'')"
    by (subst ser_long_array) (simp add: take_Cons')
  from setData_log_line [of ?v "''likes''"] h l
  obtain display where "setData ''likes'' ?v = Inr (''[setData] '' @ ''likes'' @ '': '' @ display)"
    and "display = take 200 (ser [] [] ?v) @ [ellipsis]"
    by blast
  then have 1: "setData ''likes'' ?v
       = Inr (''[setData] likes: '' @ CHR ''['' # CHR 0x22 # replicate 198 (CHR ''a'') @ [ellipsis])"
    unfolding t by simp
  have n: "\<not> (typeof_object (JNum 12) \<and> JNum 12 \<noteq> JNull)"
    by simp
  from setData_log_line [of "JNum 12" "''count''"] n
  have 2: "setData ''count'' (JNum 12) = Inr ''[setData] count: 12''"
    by (simp add: show_int_def show_nat.simps)
  from h l 1 n 2 show ?thesis
    by blast
qed

text \<open>
  Claim C7 as stated has every large value cut after 200 characters. Lines 72-78 cut
  the JSON text of arrays and objects only: a string of 201 characters is logged in
  full.
\<close>

theorem setData_long_string_in_full:
  "length (ToString (JStr (replicate 201 (CHR ''a'')))) = 201
   \<and> setData ''note'' (JStr (replicate 201 (CHR ''a'')))
       = Inr (''[setData] note: '' @ replicate 201 (CHR ''a''))"
  by (simp add: setData_falls_through)

end
